theory Spec2Isabelle
  imports Main
begin

section \<open>Python primitives used by libwyag.py\<close>

text \<open>
  Byte strings are lists of 8-bit characters, Python integers are \<open>int\<close>, and every
  exception the source can raise is a value of \<open>error\<close>. Interpreter resource limits
  (recursion depth, the digit limit of \<open>int()\<close>) are not part of the model.
\<close>

type_synonym bytes = string

datatype error =
    Exception string
  | IndexError
  | KeyError
  | TypeError
  | NameError
  | AssertionError
  | AttributeError
  | ValueError
  | UnicodeDecodeError
  | OSError string
  | ConfigError string

abbreviation NL :: char where "NL \<equiv> CHR 0x0A"
abbreviation SP :: char where "SP \<equiv> CHR 0x20"
abbreviation NUL :: char where "NUL \<equiv> CHR 0x00"

text \<open>Slice bounds: a negative bound counts from the end, and every bound is clamped.\<close>

definition adjust_index :: "nat \<Rightarrow> int \<Rightarrow> nat" where
  "adjust_index n i = (if i < 0 then nat (max 0 (i + int n)) else min n (nat i))"

text \<open>\<open>xs[a:b]\<close> and \<open>xs[a:]\<close>.\<close>

definition slice :: "'a list \<Rightarrow> int \<Rightarrow> int \<Rightarrow> 'a list" where
  "slice xs a b =
     (let lo = adjust_index (length xs) a; hi = adjust_index (length xs) b
      in take (hi - lo) (drop lo xs))"

definition slice_from :: "'a list \<Rightarrow> int \<Rightarrow> 'a list" where
  "slice_from xs a = drop (adjust_index (length xs) a) xs"

text \<open>\<open>raw[i]\<close>: a negative index counts from the end; out of range raises IndexError.\<close>

definition getitem :: "'a list \<Rightarrow> int \<Rightarrow> error + 'a" where
  "getitem xs i =
     (if 0 \<le> i \<and> i < int (length xs) then Inr (xs ! nat i)
      else if i < 0 \<and> - int (length xs) \<le> i then Inr (xs ! nat (i + int (length xs)))
      else Inl IndexError)"

text \<open>\<open>raw.find(sub, start)\<close>: the lowest index at or after \<open>start\<close> where \<open>sub\<close> occurs, or -1.\<close>

fun find_aux :: "bytes \<Rightarrow> bytes \<Rightarrow> nat \<Rightarrow> int" where
  "find_aux sub [] i = (if sub = [] then int i else -1)"
| "find_aux sub (c # cs) i =
     (if take (length sub) (c # cs) = sub then int i else find_aux sub cs (Suc i))"

definition find :: "bytes \<Rightarrow> bytes \<Rightarrow> int \<Rightarrow> int" where
  "find raw sub start =
     (let n = int (length raw);
          s = (if start < 0 then max 0 (start + n) else start)
      in if s > n then -1 else find_aux sub (drop (nat s) raw) (nat s))"

text \<open>\<open>s.replace(old, new)\<close>: non-overlapping occurrences, left to right.\<close>

function replace :: "'a list \<Rightarrow> 'a list \<Rightarrow> 'a list \<Rightarrow> 'a list" where
  "replace s old new =
     (if old = [] then new @ concat (map (\<lambda>c. c # new) s)
      else if s = [] then []
      else if take (length old) s = old then new @ replace (drop (length old) s) old new
      else hd s # replace (tl s) old new)"
  by pat_completeness auto
termination
  by (relation "measure (\<lambda>(s, old, new). length s)") (auto simp: neq_Nil_conv)

declare replace.simps [simp del]

section \<open>The KVLM codec\<close>

text \<open>
  A KVLM document is an \<open>OrderedDict\<close>: an association list in insertion order whose keys
  are byte strings, or \<open>None\<close> for the message. A value is a byte string or a list of them.
\<close>

datatype kvlm_value = Single bytes | Multi "bytes list"

type_synonym kvlm = "(bytes option \<times> kvlm_value) list"

definition dict_get :: "('k \<times> 'v) list \<Rightarrow> 'k \<Rightarrow> 'v option" where
  "dict_get d k = map_of d k"

text \<open>\<open>d[k] = v\<close>: an existing key keeps its position, a new key goes last.\<close>

fun dict_set :: "('k \<times> 'v) list \<Rightarrow> 'k \<Rightarrow> 'v \<Rightarrow> ('k \<times> 'v) list" where
  "dict_set [] k v = [(k, v)]"
| "dict_set (p # ps) k v = (if fst p = k then (k, v) # ps else p # dict_set ps k v)"

text \<open>
  The \<open>while True\<close> loop of \<open>kvlm_parse\<close>: find the next newline after \<open>end\<close> and read the
  byte after it; stop when that byte is not a space. The loop may run forever, so the
  result is an option, \<open>None\<close> standing for no return.
\<close>

partial_function (option) value_end :: "bytes \<Rightarrow> int \<Rightarrow> (error + int) option" where
  "value_end raw endp =
     (let e = find raw [NL] (endp + 1)
      in case getitem raw (e + 1) of
           Inl err \<Rightarrow> Some (Inl err)
         | Inr b \<Rightarrow> if b \<noteq> SP then Some (Inr e) else value_end raw e)"

declare value_end.simps [code]

partial_function (option) kvlm_parse ::
  "bytes \<Rightarrow> int \<Rightarrow> kvlm option \<Rightarrow> (error + kvlm) option" where
  "kvlm_parse raw start dict =
     (let d = (case dict of None \<Rightarrow> [] | Some d0 \<Rightarrow> d0);
          space = find raw [SP] start;
          endline = find raw [NL] start
      in if space < 0 \<or> endline < space then
           (if endline \<noteq> start then Some (Inl AssertionError)
            else Some (Inr (dict_set d None (Single (slice_from raw (start + 1))))))
         else
           (let key = slice raw start space
            in case value_end raw start of
                 None \<Rightarrow> None
               | Some (Inl err) \<Rightarrow> Some (Inl err)
               | Some (Inr e) \<Rightarrow>
                   (let val = replace (slice raw (space + 1) e) [NL, SP] [NL];
                        d' = (case dict_get d (Some key) of
                                Some (Multi l) \<Rightarrow> dict_set d (Some key) (Multi (l @ [val]))
                              | Some (Single v0) \<Rightarrow> dict_set d (Some key) (Multi [v0, val])
                              | None \<Rightarrow> dict_set d (Some key) (Single val))
                    in kvlm_parse raw (e + 1) (Some d'))))"

declare kvlm_parse.simps [code]

text \<open>\<open>kvlm_serialize\<close>: the field lines in key order, then a blank line and the message.\<close>

definition field_line :: "bytes \<Rightarrow> bytes \<Rightarrow> bytes" where
  "field_line k v = k @ [SP] @ replace v [NL] [NL, SP] @ [NL]"

definition kvlm_serialize :: "kvlm \<Rightarrow> error + bytes" where
  "kvlm_serialize kvlm =
     (let ret = foldl (\<lambda>ret (k, val).
                   case k of
                     None \<Rightarrow> ret
                   | Some k' \<Rightarrow>
                       foldl (\<lambda>ret v. ret @ field_line k' v) ret
                         (case val of Multi l \<Rightarrow> l | Single v \<Rightarrow> [v]))
                 [] kvlm
      in case dict_get kvlm None of
           None \<Rightarrow> Inl KeyError
         | Some (Multi l) \<Rightarrow> Inl TypeError
         | Some (Single m) \<Rightarrow> Inr (ret @ [NL] @ m @ [NL]))"

section \<open>Numbers as text\<close>

text \<open>\<open>str(n)\<close> for a length, and \<open>int(s)\<close> on a decoded ASCII string.\<close>

fun str_nat :: "nat \<Rightarrow> string" where
  "str_nat n =
     (if n < 10 then [char_of (48 + n)]
      else str_nat (n div 10) @ [char_of (48 + n mod 10)])"

declare str_nat.simps [simp del]

definition str_int :: "int \<Rightarrow> string" where
  "str_int i = (if i < 0 then CHR ''-'' # str_nat (nat (- i)) else str_nat (nat i))"

definition is_digit :: "char \<Rightarrow> bool" where
  "is_digit c = (48 \<le> (of_char c :: nat) \<and> (of_char c :: nat) \<le> 57)"

definition is_space :: "char \<Rightarrow> bool" where
  "is_space c = ((of_char c :: nat) \<in> {9, 10, 11, 12, 13, 32})"

definition strip_space :: "string \<Rightarrow> string" where
  "strip_space s = rev (dropWhile is_space (rev (dropWhile is_space s)))"

text \<open>
  The digits of an integer literal: single underscores are allowed between digits.
  The flag says whether the previous character was a digit.
\<close>

fun digits_value :: "string \<Rightarrow> nat \<Rightarrow> bool \<Rightarrow> nat option" where
  "digits_value [] acc prev = (if prev then Some acc else None)"
| "digits_value (c # cs) acc prev =
     (if is_digit c then digits_value cs (acc * 10 + ((of_char c :: nat) - 48)) True
      else if c = CHR ''_'' \<and> prev then digits_value cs acc False
      else None)"

definition py_int :: "string \<Rightarrow> error + int" where
  "py_int s =
     (let t = strip_space s;
          (sgn, r) = (case t of
                        c # cs \<Rightarrow> if c = CHR ''+'' then (1, cs)
                                  else if c = CHR ''-'' then (- 1, cs) else (1, t)
                      | [] \<Rightarrow> (1, t))
      in case digits_value r 0 False of
           None \<Rightarrow> Inl ValueError
         | Some n \<Rightarrow> Inr (sgn * int n))"

text \<open>\<open>b.decode("ascii")\<close> raises on a byte above 127.\<close>

definition decode_ascii :: "bytes \<Rightarrow> error + string" where
  "decode_ascii b =
     (if \<forall>c \<in> set b. (of_char c :: nat) < 128 then Inr b else Inl UnicodeDecodeError)"

text \<open>\<open>repr\<close> of a byte string, as an f-string renders it.\<close>

definition hex_digit :: "nat \<Rightarrow> char" where
  "hex_digit n = (if n < 10 then char_of (48 + n) else char_of (87 + n))"

definition repr_bytes :: "bytes \<Rightarrow> string" where
  "repr_bytes b =
     (let quote = (if CHR 0x27 \<in> set b \<and> CHR 0x22 \<notin> set b then CHR 0x22 else CHR 0x27);
          esc = (\<lambda>c. if c = quote \<or> c = CHR 0x5C then [CHR 0x5C, c]
                      else if c = CHR 0x09 then [CHR 0x5C, CHR ''t'']
                      else if c = NL then [CHR 0x5C, CHR ''n'']
                      else if c = CHR 0x0D then [CHR 0x5C, CHR ''r'']
                      else if (of_char c :: nat) < 32 \<or> (of_char c :: nat) \<ge> 127
                        then [CHR 0x5C, CHR ''x'', hex_digit ((of_char c :: nat) div 16),
                              hex_digit ((of_char c :: nat) mod 16)]
                      else [c])
      in CHR ''b'' # quote # concat (map esc b) @ [quote])"

section \<open>The file system\<close>

text \<open>
  A path is the list of its components below the root, and \<open>os.path.join\<close> appends
  components. The file system maps paths to directories and files; there are no
  symbolic links, and the root is always a directory.
\<close>

type_synonym path = "string list"

datatype node = Dir | File bytes

type_synonym filesys = "path \<Rightarrow> node option"

definition path_str :: "path \<Rightarrow> string" where
  "path_str p = (if p = [] then ''/'' else concat (map (\<lambda>c. CHR ''/'' # c) p))"

definition node_at :: "filesys \<Rightarrow> path \<Rightarrow> node option" where
  "node_at fs p = (if p = [] then Some Dir else fs p)"

definition exists :: "filesys \<Rightarrow> path \<Rightarrow> bool" where
  "exists fs p = (node_at fs p \<noteq> None)"

definition isdir :: "filesys \<Rightarrow> path \<Rightarrow> bool" where
  "isdir fs p = (node_at fs p = Some Dir)"

definition isfile :: "filesys \<Rightarrow> path \<Rightarrow> bool" where
  "isfile fs p = (case node_at fs p of Some (File b) \<Rightarrow> True | _ \<Rightarrow> False)"

text \<open>\<open>os.makedirs(p)\<close>: creates every missing directory down to \<open>p\<close>.\<close>

definition ancestors :: "path \<Rightarrow> path list" where
  "ancestors p = map (\<lambda>n. take n p) [1..<length p]"

definition makedirs :: "filesys \<Rightarrow> path \<Rightarrow> error + filesys" where
  "makedirs fs p =
     (if exists fs p then Inl (OSError ''FileExistsError'')
      else if \<exists>q \<in> set (ancestors p). isfile fs q then Inl (OSError ''NotADirectoryError'')
      else Inr (foldl (\<lambda>f q. if f q = None then f(q \<mapsto> Dir) else f) fs (ancestors p @ [p])))"

text \<open>\<open>open(p, "wb")\<close> followed by \<open>write\<close>, and \<open>open(p, "rb")\<close> followed by \<open>read\<close>.\<close>

definition write_file :: "filesys \<Rightarrow> path \<Rightarrow> bytes \<Rightarrow> error + filesys" where
  "write_file fs p b =
     (if isdir fs p then Inl (OSError ''IsADirectoryError'')
      else case node_at fs (butlast p) of
             None \<Rightarrow> Inl (OSError ''FileNotFoundError'')
           | Some (File x) \<Rightarrow> Inl (OSError ''NotADirectoryError'')
           | Some Dir \<Rightarrow> Inr (fs(p \<mapsto> File b)))"

definition read_file :: "filesys \<Rightarrow> path \<Rightarrow> error + bytes" where
  "read_file fs p =
     (case node_at fs p of
        None \<Rightarrow> Inl (OSError ''FileNotFoundError'')
      | Some Dir \<Rightarrow> Inl (OSError ''IsADirectoryError'')
      | Some (File b) \<Rightarrow> Inr b)"

section \<open>Repositories\<close>

text \<open>
  The parsed configuration is the list of the sections with their options and values.
  Parsing the text of a configuration file and looking an option up (with the defaults,
  the interpolation and the errors of the library for a missing section or option) are
  the library's work: \<open>conf_read\<close> stands for \<open>ConfigParser.read\<close> on a new parser and
  \<open>conf_get\<close> for \<open>ConfigParser.get\<close>.
\<close>

type_synonym config = "(string \<times> (string \<times> string) list) list"

record GitRepository =
  worktree :: path
  gitdir :: path
  conf :: config

definition repo_path :: "GitRepository \<Rightarrow> path \<Rightarrow> path" where
  "repo_path repo p = gitdir repo @ p"

text \<open>
  \<open>repo_dir\<close> returns the path, or \<open>None\<close> when it is absent and \<open>mkdir\<close> is off, together
  with the file system, which \<open>makedirs\<close> may have changed.
\<close>

definition repo_dir ::
  "filesys \<Rightarrow> GitRepository \<Rightarrow> path \<Rightarrow> bool \<Rightarrow> error + (path option \<times> filesys)" where
  "repo_dir fs repo p mkdir =
     (let path = repo_path repo p
      in if exists fs path then
           (if isdir fs path then Inr (Some path, fs)
            else Inl (Exception (''Not a directory '' @ path_str path)))
         else if mkdir then
           (case makedirs fs path of
              Inl e \<Rightarrow> Inl e
            | Inr fs' \<Rightarrow> Inr (Some path, fs'))
         else Inr (None, fs))"

definition repo_file ::
  "filesys \<Rightarrow> GitRepository \<Rightarrow> path \<Rightarrow> bool \<Rightarrow> error + (path option \<times> filesys)" where
  "repo_file fs repo p mkdir =
     (case repo_dir fs repo (butlast p) mkdir of
        Inl e \<Rightarrow> Inl e
      | Inr (None, fs') \<Rightarrow> Inr (None, fs')
      | Inr (Some d, fs') \<Rightarrow> Inr (Some (repo_path repo p), fs'))"

text \<open>\<open>GitRepository.__init__\<close>. Without \<open>force\<close> it never changes the file system.\<close>

definition GitRepository_init ::
  "filesys \<Rightarrow> (bytes \<Rightarrow> error + config) \<Rightarrow> (config \<Rightarrow> string \<Rightarrow> string \<Rightarrow> error + string)
     \<Rightarrow> path \<Rightarrow> bool \<Rightarrow> error + GitRepository" where
  "GitRepository_init fs conf_read conf_get p force =
     (let self = \<lparr>worktree = p, gitdir = p @ [''.git''], conf = []\<rparr>
      in if \<not> (force \<or> isdir fs (gitdir self)) then
           Inl (Exception (''Not a Git repository '' @ path_str p))
         else
           (case repo_file fs self [''config''] False of
              Inl e \<Rightarrow> Inl e
            | Inr (cf, fs') \<Rightarrow>
                (case (case cf of
                         Some c \<Rightarrow>
                           if exists fs c then
                             (case read_file fs c of
                                Inl e \<Rightarrow> Inr self
                              | Inr b \<Rightarrow>
                                  (case conf_read b of
                                     Inl e \<Rightarrow> Inl e
                                   | Inr cfg \<Rightarrow> Inr (self\<lparr>conf := cfg\<rparr>)))
                           else if \<not> force then Inl (Exception ''Configuration file missing'')
                           else Inr self
                       | None \<Rightarrow>
                           if \<not> force then Inl (Exception ''Configuration file missing'')
                           else Inr self) of
                   Inl e \<Rightarrow> Inl e
                 | Inr self' \<Rightarrow>
                     if \<not> force then
                       (case conf_get (conf self') ''core'' ''repositoryformatversion'' of
                          Inl e \<Rightarrow> Inl e
                        | Inr v \<Rightarrow>
                            (case py_int v of
                               Inl e \<Rightarrow> Inl e
                             | Inr vers \<Rightarrow>
                                 if vers \<noteq> 0 then
                                   Inl (Exception (''Unsupported repositoryformatversion ''
                                                    @ str_int vers))
                                 else Inr self'))
                     else Inr self')))"

text \<open>
  \<open>os.path.realpath\<close> on an absolute path without symbolic links: empty and \<open>.\<close>
  components vanish, \<open>..\<close> steps to the parent, and the parent of the root is the root.
\<close>

definition realpath :: "path \<Rightarrow> path" where
  "realpath p =
     foldl (\<lambda>acc c. if c = [] \<or> c = ''.'' then acc
                     else if c = ''..'' then butlast acc
                     else acc @ [c]) [] p"

lemma realpath_snoc:
  "realpath (p @ [c]) =
     (if c = [] \<or> c = ''.'' then realpath p
      else if c = ''..'' then butlast (realpath p)
      else realpath p @ [c])"
  by (simp add: realpath_def)

definition canonical :: "path \<Rightarrow> bool" where
  "canonical p = (\<forall>c \<in> set p. c \<noteq> [] \<and> c \<noteq> ''.'' \<and> c \<noteq> ''..'')"

lemma canonical_butlast: "canonical p \<Longrightarrow> canonical (butlast p)"
  by (auto simp: canonical_def dest: in_set_butlastD)

lemma canonical_realpath: "canonical (realpath p)"
proof (induction p rule: rev_induct)
  case Nil
  show ?case by (simp add: realpath_def canonical_def)
next
  case (snoc c p)
  then show ?case
    by (auto simp: realpath_snoc canonical_butlast) (auto simp: canonical_def)
qed

lemma realpath_canonical: "canonical p \<Longrightarrow> realpath p = p"
proof (induction p rule: rev_induct)
  case Nil
  show ?case by (simp add: realpath_def)
next
  case (snoc c p)
  then show ?case by (simp add: realpath_snoc canonical_def)
qed

lemma realpath_idem: "realpath (realpath p) = realpath p"
  by (simp add: realpath_canonical canonical_realpath)

lemma realpath_parent: "realpath (realpath p @ [''..'']) = butlast (realpath p)"
  by (simp add: realpath_snoc realpath_idem)

lemma realpath_parent_twice:
  "realpath (realpath (realpath p @ [''..''])) = butlast (realpath p)"
  by (simp add: realpath_parent realpath_canonical canonical_butlast canonical_realpath)

text \<open>\<open>repo_find\<close> walks from the canonical start path towards the root.\<close>

function repo_find ::
  "filesys \<Rightarrow> (bytes \<Rightarrow> error + config) \<Rightarrow> (config \<Rightarrow> string \<Rightarrow> string \<Rightarrow> error + string)
     \<Rightarrow> path \<Rightarrow> bool \<Rightarrow> error + GitRepository option" where
  "repo_find fs conf_read conf_get p required =
     (let path = realpath p
      in if isdir fs (path @ [''.git'']) then
           (case GitRepository_init fs conf_read conf_get path False of
              Inl e \<Rightarrow> Inl e
            | Inr r \<Rightarrow> Inr (Some r))
         else
           (let parent = realpath (path @ [''..''])
            in if parent = path then
                 (if required then Inl (Exception ''No git directory.'') else Inr None)
               else repo_find fs conf_read conf_get parent required))"
  by pat_completeness auto
termination
proof (relation "measure (\<lambda>(fs, cr, cg, p, required). length (realpath p))")
  show "wf (measure (\<lambda>(fs, cr, cg, p, required). length (realpath p)))" by simp
next
  fix fs :: filesys and conf_read :: "bytes \<Rightarrow> error + config"
    and conf_get :: "config \<Rightarrow> string \<Rightarrow> string \<Rightarrow> error + string"
    and p :: path and required :: bool and x xa
  assume x: "x = realpath p" and xa: "xa = realpath (x @ [''..''])" and ne: "xa \<noteq> x"
  have eq: "xa = butlast (realpath p)" using x xa by (simp add: realpath_parent)
  from eq ne x have nonempty: "realpath p \<noteq> []" by auto
  have "realpath xa = butlast (realpath p)"
    unfolding eq by (simp add: realpath_canonical canonical_butlast canonical_realpath)
  with nonempty have "length (realpath xa) < length (realpath p)" by simp
  then show "((fs, conf_read, conf_get, xa, required), (fs, conf_read, conf_get, p, required))
               \<in> measure (\<lambda>(fs, cr, cg, p, required). length (realpath p))"
    by simp
qed

declare repo_find.simps [simp del]

section \<open>Objects\<close>

text \<open>
  Python keeps the last definition of a name in a class body. \<open>GitBlob\<close> defines
  \<open>serialize\<close> twice, so its \<open>serialize\<close> is the second one, which takes the data and stores
  it; \<open>GitCommit\<close> defines \<open>serialize\<close> twice, so its \<open>serialize\<close> is the second one, which
  returns the serialized document. Neither class defines \<open>deserialize\<close>: both inherit the
  one of \<open>GitObject\<close>, which raises. The names \<open>GitTree\<close> and \<open>GitTag\<close> are not defined.
\<close>

datatype obj_class = GitBlob | GitCommit

record GitObject =
  cls :: obj_class
  blobdata :: "bytes option"
  kvlm :: "kvlm option"

fun object_type :: "obj_class \<Rightarrow> bytes" where
  "object_type GitBlob = ''blob''"
| "object_type GitCommit = ''commit''"

definition GitObject_deserialize :: "GitObject \<Rightarrow> bytes \<Rightarrow> error + GitObject" where
  "GitObject_deserialize self data = Inl (Exception ''Unimplemented!'')"

fun deserialize :: "obj_class \<Rightarrow> GitObject \<Rightarrow> bytes \<Rightarrow> error + GitObject" where
  "deserialize GitBlob self data = GitObject_deserialize self data"
| "deserialize GitCommit self data = GitObject_deserialize self data"

fun init :: "obj_class \<Rightarrow> GitObject \<Rightarrow> GitObject" where
  "init GitBlob self = self"
| "init GitCommit self = self\<lparr>kvlm := Some []\<rparr>"

text \<open>\<open>GitObject.__init__\<close>, reached through \<open>GitBlob(data)\<close> and \<open>GitCommit(data)\<close>.\<close>

definition new_object :: "obj_class \<Rightarrow> bytes option \<Rightarrow> error + GitObject" where
  "new_object c data =
     (let self = \<lparr>cls = c, blobdata = None, kvlm = None\<rparr>
      in case data of
           Some d \<Rightarrow> deserialize c self d
         | None \<Rightarrow> Inr (init c self))"

text \<open>
  \<open>obj.serialize()\<close>, the call with no argument that \<open>object_write\<close> makes: on a blob the
  argument \<open>data\<close> is missing.
\<close>

fun serialize :: "GitObject \<Rightarrow> error + bytes" where
  "serialize self =
     (case cls self of
        GitBlob \<Rightarrow> Inl TypeError
      | GitCommit \<Rightarrow>
          (case kvlm self of
             None \<Rightarrow> Inl AttributeError
           | Some k \<Rightarrow> kvlm_serialize k))"

text \<open>
  \<open>object_read\<close>. Decompression is the library's work: \<open>zdecompress\<close> stands for
  \<open>zlib.decompress\<close>. \<open>repo_file\<close> returns \<open>None\<close> when the directory of the object is
  absent, and \<open>os.path.isfile(None)\<close> raises TypeError.
\<close>

definition object_read ::
  "filesys \<Rightarrow> (bytes \<Rightarrow> error + bytes) \<Rightarrow> GitRepository \<Rightarrow> string
     \<Rightarrow> error + GitObject option" where
  "object_read fs zdecompress repo sha =
     (case repo_file fs repo [''objects'', slice sha 0 2, slice_from sha 2] False of
        Inl e \<Rightarrow> Inl e
      | Inr (None, fs') \<Rightarrow> Inl TypeError
      | Inr (Some path, fs') \<Rightarrow>
          if \<not> isfile fs path then Inr None
          else
            (case read_file fs path of
               Inl e \<Rightarrow> Inl e
             | Inr z \<Rightarrow>
                 (case zdecompress z of
                    Inl e \<Rightarrow> Inl e
                  | Inr raw \<Rightarrow>
                      (let x = find raw [SP] 0;
                           otype = slice raw 0 x;
                           y = find raw [NUL] x
                       in case decode_ascii (slice raw x y) of
                            Inl e \<Rightarrow> Inl e
                          | Inr s \<Rightarrow>
                              (case py_int s of
                                 Inl e \<Rightarrow> Inl e
                               | Inr sz \<Rightarrow>
                                   if sz \<noteq> int (length raw) - y - 1 then
                                     Inl (Exception (''Malformed object '' @ sha
                                                      @ '': bad length''))
                                   else
                                     (case (if otype = ''commit'' then Inr GitCommit
                                            else if otype = ''tree'' then Inl NameError
                                            else if otype = ''tag'' then Inl NameError
                                            else if otype = ''blob'' then Inr GitBlob
                                            else
                                              (case decode_ascii otype of
                                                 Inl e \<Rightarrow> Inl e
                                               | Inr t \<Rightarrow>
                                                   Inl (Exception (''Unknown type '' @ t
                                                          @ '' for object '' @ sha)))) of
                                        Inl e \<Rightarrow> Inl e
                                      | Inr c \<Rightarrow>
                                          (case new_object c (Some (slice_from raw (y + 1))) of
                                             Inl e \<Rightarrow> Inl e
                                           | Inr ob \<Rightarrow> Inr (Some ob))))))))"

text \<open>
  \<open>object_write\<close>. \<open>sha1\<close> stands for \<open>hashlib.sha1(...).hexdigest()\<close> and \<open>zcompress\<close> for
  \<open>zlib.compress\<close>. The path is computed from \<open>"objects"\<close> and \<open>sha[0:2]\<close> alone.
\<close>

definition object_write ::
  "filesys \<Rightarrow> (bytes \<Rightarrow> string) \<Rightarrow> (bytes \<Rightarrow> bytes) \<Rightarrow> GitObject \<Rightarrow> GitRepository option
     \<Rightarrow> error + (string \<times> filesys)" where
  "object_write fs sha1 zcompress obj repo =
     (case serialize obj of
        Inl e \<Rightarrow> Inl e
      | Inr data \<Rightarrow>
          (let result = object_type (cls obj) @ [SP] @ str_nat (length data) @ [NUL] @ data;
               sha = sha1 result
           in case repo of
                None \<Rightarrow> Inr (sha, fs)
              | Some r \<Rightarrow>
                  (case repo_file fs r [''objects'', slice sha 0 2] True of
                     Inl e \<Rightarrow> Inl e
                   | Inr (None, fs') \<Rightarrow> Inl TypeError
                   | Inr (Some path, fs') \<Rightarrow>
                       if \<not> exists fs' path then
                         (case write_file fs' path (zcompress result) of
                            Inl e \<Rightarrow> Inl e
                          | Inr fs'' \<Rightarrow> Inr (sha, fs''))
                       else Inr (sha, fs'))))"

text \<open>\<open>object_hash\<close>, with \<open>data\<close> the bytes that \<open>fd.read()\<close> returns.\<close>

definition object_hash ::
  "filesys \<Rightarrow> (bytes \<Rightarrow> string) \<Rightarrow> (bytes \<Rightarrow> bytes) \<Rightarrow> bytes \<Rightarrow> bytes
     \<Rightarrow> GitRepository option \<Rightarrow> error + (string \<times> filesys)" where
  "object_hash fs sha1 zcompress data otype repo =
     (case (if otype = ''commit'' then new_object GitCommit (Some data)
            else if otype = ''tree'' then Inl NameError
            else if otype = ''tag'' then Inl NameError
            else if otype = ''blob'' then new_object GitBlob (Some data)
            else Inl (Exception (''Unknown type '' @ repr_bytes otype))) of
        Inl e \<Rightarrow> Inl e
      | Inr obj \<Rightarrow> object_write fs sha1 zcompress obj repo)"

section \<open>The commit graph walker\<close>

text \<open>
  Decoded text is a list of code points; \<open>decode_utf8\<close> stands for \<open>bytes.decode("utf8")\<close>.
  The walker prints lines and adds to the caller's set \<open>seen\<close>: both are the state, which
  is returned with the exception that ended the walk, if any. The recursion carries fuel,
  and \<open>None\<close> means that the fuel ran out.
\<close>

type_synonym str = "nat list"

definition str_of :: "string \<Rightarrow> str" where
  "str_of s = map of_char s"

definition is_uspace :: "nat \<Rightarrow> bool" where
  "is_uspace n =
     (n \<in> {9, 10, 11, 12, 13, 28, 29, 30, 31, 32, 133, 160, 5760, 8232, 8233, 8239, 8287, 12288}
      \<or> (8192 \<le> n \<and> n \<le> 8202))"

definition strip :: "str \<Rightarrow> str" where
  "strip s = rev (dropWhile is_uspace (rev (dropWhile is_uspace s)))"

type_synonym walk_state = "string set \<times> str list"

definition node_line :: "string \<Rightarrow> str \<Rightarrow> str" where
  "node_line sha message =
     str_of '' c_'' @ str_of sha @ str_of ('' [label='' @ [CHR 0x27]) @ str_of (slice sha 0 7)
       @ str_of '': '' @ message @ str_of [CHR 0x22, CHR '']'']"

definition edge_line :: "string \<Rightarrow> string \<Rightarrow> str" where
  "edge_line sha p = str_of '' c_'' @ str_of sha @ str_of '' -> c_'' @ str_of p @ str_of '';''"

text \<open>
  The body of \<open>log_graphviz\<close> between \<open>seen.add(sha)\<close> and the loop over the parents:
  it reads the commit, prints the node line and returns the parents to visit (none when
  the commit has no \<open>parent\<close> field), or the exception raised on the way.
\<close>

definition visit ::
  "filesys \<Rightarrow> (bytes \<Rightarrow> error + bytes) \<Rightarrow> (bytes \<Rightarrow> error + str) \<Rightarrow> GitRepository
     \<Rightarrow> string \<Rightarrow> str list \<Rightarrow> str list \<times> (error + bytes list)" where
  "visit fs zdecompress decode_utf8 repo sha out =
     (case object_read fs zdecompress repo sha of
        Inl e \<Rightarrow> (out, Inl e)
      | Inr None \<Rightarrow> (out, Inl AttributeError)
      | Inr (Some commit) \<Rightarrow>
          (case kvlm commit of
             None \<Rightarrow> (out, Inl AttributeError)
           | Some k \<Rightarrow>
               (case dict_get k None of
                  None \<Rightarrow> (out, Inl KeyError)
                | Some (Multi l) \<Rightarrow> (out, Inl AttributeError)
                | Some (Single m) \<Rightarrow>
                    (case decode_utf8 m of
                       Inl e \<Rightarrow> (out, Inl e)
                     | Inr decoded \<Rightarrow>
                         (let message = strip decoded;
                              message = replace message [92] [92, 92];
                              message = replace message [34] [92, 34];
                              message = (if 10 \<in> set message
                                         then takeWhile (\<lambda>c. c \<noteq> 10) message
                                         else message);
                              out' = out @ [node_line sha message]
                          in if object_type (cls commit) \<noteq> ''commit'' then
                               (out', Inl AssertionError)
                             else
                               (case dict_get k (Some ''parent'') of
                                  None \<Rightarrow> (out', Inr [])
                                | Some (Multi l) \<Rightarrow> (out', Inr l)
                                | Some (Single p) \<Rightarrow> (out', Inr [p])))))))"

fun log_graphviz ::
  "nat \<Rightarrow> filesys \<Rightarrow> (bytes \<Rightarrow> error + bytes) \<Rightarrow> (bytes \<Rightarrow> error + str) \<Rightarrow> GitRepository
     \<Rightarrow> string \<Rightarrow> walk_state \<Rightarrow> (walk_state \<times> error option) option"
and log_parents ::
  "nat \<Rightarrow> filesys \<Rightarrow> (bytes \<Rightarrow> error + bytes) \<Rightarrow> (bytes \<Rightarrow> error + str) \<Rightarrow> GitRepository
     \<Rightarrow> string \<Rightarrow> bytes list \<Rightarrow> walk_state \<Rightarrow> (walk_state \<times> error option) option"
where
  "log_graphviz 0 fs zdecompress decode_utf8 repo sha st = None"
| "log_graphviz (Suc n) fs zdecompress decode_utf8 repo sha st =
     (if sha \<in> fst st then Some (st, None)
      else
        (case visit fs zdecompress decode_utf8 repo sha (snd st) of
           (out', Inl e) \<Rightarrow> Some ((insert sha (fst st), out'), Some e)
         | (out', Inr parents) \<Rightarrow>
             log_parents n fs zdecompress decode_utf8 repo sha parents
               (insert sha (fst st), out')))"
| "log_parents n fs zdecompress decode_utf8 repo sha [] st = Some (st, None)"
| "log_parents n fs zdecompress decode_utf8 repo sha (p # ps) st =
     (case decode_ascii p of
        Inl e \<Rightarrow> Some (st, Some e)
      | Inr p' \<Rightarrow>
          (case log_graphviz n fs zdecompress decode_utf8 repo p'
                  (fst st, snd st @ [edge_line sha p']) of
             None \<Rightarrow> None
           | Some (st', Some e) \<Rightarrow> Some (st', Some e)
           | Some (st', None) \<Rightarrow>
               log_parents n fs zdecompress decode_utf8 repo sha ps st'))"

section \<open>Notions used in the statements\<close>

text \<open>The number a run of decimal digits denotes.\<close>

definition dec_val :: "string \<Rightarrow> nat" where
  "dec_val ds = foldl (\<lambda>a c. a * 10 + ((of_char c :: nat) - 48)) 0 ds"

text \<open>
  What \<open>object_read\<close> does with a well-framed object of type token \<open>ty\<close>, once the length
  check has passed.
\<close>

definition dispatch_result :: "bytes \<Rightarrow> string \<Rightarrow> error + GitObject option" where
  "dispatch_result ty sha =
     (if ty = ''commit'' \<or> ty = ''blob'' then Inl (Exception ''Unimplemented!'')
      else if ty = ''tree'' \<or> ty = ''tag'' then Inl NameError
      else (case decode_ascii ty of
              Inl e \<Rightarrow> Inl e
            | Inr t \<Rightarrow> Inl (Exception (''Unknown type '' @ t @ '' for object '' @ sha))))"

text \<open>
  The shape of KVLM input. A key is not empty and holds no space and no newline. A value
  is folded when each of its newlines is followed by a space. \<open>add_field\<close> is what
  \<open>kvlm_parse\<close> does to the dictionary for one field, \<open>field_lines\<close> is the text of a
  list of fields, and \<open>add_fields\<close> adds them in order.
\<close>

definition valid_key :: "bytes \<Rightarrow> bool" where
  "valid_key k = (k \<noteq> [] \<and> SP \<notin> set k \<and> NL \<notin> set k)"

fun folded :: "bytes \<Rightarrow> bool" where
  "folded [] = True"
| "folded (c # cs) = ((c = NL \<longrightarrow> cs \<noteq> [] \<and> hd cs = SP) \<and> folded cs)"

definition add_field :: "kvlm \<Rightarrow> bytes \<Rightarrow> bytes \<Rightarrow> kvlm" where
  "add_field d key val =
     (case dict_get d (Some key) of
        Some (Multi l) \<Rightarrow> dict_set d (Some key) (Multi (l @ [val]))
      | Some (Single v0) \<Rightarrow> dict_set d (Some key) (Multi [v0, val])
      | None \<Rightarrow> dict_set d (Some key) (Single val))"

definition field_lines :: "(bytes \<times> bytes) list \<Rightarrow> bytes" where
  "field_lines fs = concat (map (\<lambda>(k, v). field_line k v) fs)"

definition add_fields :: "kvlm \<Rightarrow> (bytes \<times> bytes) list \<Rightarrow> kvlm" where
  "add_fields d fs = foldl (\<lambda>d (k, v). add_field d k v) d fs"

text \<open>
  The fields of a document in the order of serialization: each key with each of its
  values. An item of a document is valid when its key is a valid field key and its list,
  if it is one, holds at least two values, as the lists that \<open>kvlm_parse\<close> builds do.
\<close>

definition item_fields :: "bytes option \<times> kvlm_value \<Rightarrow> (bytes \<times> bytes) list" where
  "item_fields it =
     (case fst it of
        None \<Rightarrow> []
      | Some k \<Rightarrow> map (Pair k) (case snd it of Multi l \<Rightarrow> l | Single v \<Rightarrow> [v]))"

definition flatten :: "kvlm \<Rightarrow> (bytes \<times> bytes) list" where
  "flatten D = concat (map item_fields D)"

definition valid_item :: "bytes option \<times> kvlm_value \<Rightarrow> bool" where
  "valid_item it =
     (case fst it of
        None \<Rightarrow> False
      | Some k \<Rightarrow> valid_key k \<and> (case snd it of Multi l \<Rightarrow> 2 \<le> length l | Single v \<Rightarrow> True))"

text \<open>
  A stored history with a diamond: the commit \<open>S\<close> has the parents \<open>A\<close> and \<open>B\<close>, and both
  have the parent \<open>R\<close>. Each object lies at its two-level path with valid framing.
\<close>

definition diamond_repo :: GitRepository where
  "diamond_repo = \<lparr>worktree = [''r''], gitdir = [''r'', ''.git''], conf = []\<rparr>"

definition sha_S :: string where "sha_S = ''aa00000000000000000000000000000000000001''"
definition sha_A :: string where "sha_A = ''bb00000000000000000000000000000000000002''"
definition sha_B :: string where "sha_B = ''cc00000000000000000000000000000000000003''"
definition sha_R :: string where "sha_R = ''dd00000000000000000000000000000000000004''"

definition commit_S :: bytes where
  "commit_S = ''parent '' @ sha_A @ [NL] @ ''parent '' @ sha_B @ [NL, NL] @ ''merge''"
definition commit_A :: bytes where
  "commit_A = ''parent '' @ sha_R @ [NL, NL] @ ''left''"
definition commit_B :: bytes where
  "commit_B = ''parent '' @ sha_R @ [NL, NL] @ ''right''"
definition commit_R :: bytes where
  "commit_R = [NL] @ ''root''"

definition diamond_fs :: filesys where
  "diamond_fs =
     Map.empty
       ([''r'', ''.git'', ''objects''] \<mapsto> Dir,
        [''r'', ''.git'', ''objects'', ''aa''] \<mapsto> Dir,
        [''r'', ''.git'', ''objects'', ''bb''] \<mapsto> Dir,
        [''r'', ''.git'', ''objects'', ''cc''] \<mapsto> Dir,
        [''r'', ''.git'', ''objects'', ''dd''] \<mapsto> Dir,
        [''r'', ''.git'', ''objects'', ''aa'', drop 2 sha_S] \<mapsto>
           File (''commit 102'' @ [NUL] @ commit_S),
        [''r'', ''.git'', ''objects'', ''bb'', drop 2 sha_A] \<mapsto>
           File (''commit 53'' @ [NUL] @ commit_A),
        [''r'', ''.git'', ''objects'', ''cc'', drop 2 sha_B] \<mapsto>
           File (''commit 54'' @ [NUL] @ commit_B),
        [''r'', ''.git'', ''objects'', ''dd'', drop 2 sha_R] \<mapsto>
           File (''commit 5'' @ [NUL] @ commit_R))"

section \<open>Properties of the object store\<close>

lemma new_object_data: "new_object c (Some d) = Inl (Exception ''Unimplemented!'')"
  by (cases c) (simp_all add: new_object_def GitObject_deserialize_def)

text \<open>
  Where an object does serialize, \<open>object_write\<close> hashes the type token, a space, the
  decimal length, a null byte and the data, and without a repository it writes nothing.
\<close>

lemma object_write_hashes_frame:
  "serialize obj = Inr data \<Longrightarrow>
     object_write fs sha1 zcompress obj None
       = Inr (sha1 (object_type (cls obj) @ [SP] @ str_nat (length data) @ [NUL] @ data), fs)"
  by (simp add: object_write_def Let_def)

text \<open>
  C5. Hashing a blob with payload \<open>hello\<close> does not return a digest: the constructor
  passes the data to \<open>deserialize\<close>, which \<open>GitBlob\<close> does not define, whatever the hash
  and the compressor are.
\<close>

theorem object_hash_blob_hello_raises:
  "object_hash fs sha1 zcompress ''hello'' ''blob'' None = Inl (Exception ''Unimplemented!'')"
  by (simp add: object_hash_def new_object_data)

lemma find_aux_char:
  "c \<notin> set xs \<Longrightarrow> find_aux [c] (xs @ c # rest) i = int (i + length xs)"
  by (induction xs arbitrary: i) auto

lemma find_aux_absent: "c \<notin> set xs \<Longrightarrow> find_aux [c] xs i = - 1"
  by (induction xs arbitrary: i) auto

lemma find_char:
  "c \<notin> set xs \<Longrightarrow> find (pre @ xs @ c # rest) [c] (int (length pre)) = int (length pre + length xs)"
  by (simp add: find_def find_aux_char)

lemma find_char0:
  "c \<notin> set xs \<Longrightarrow> find (xs @ c # rest) [c] 0 = int (length xs)"
  using find_char [of c xs "[]" rest] by simp

lemma slice_prefix: "slice (xs @ ys) 0 (int (length xs)) = xs"
  by (simp add: slice_def adjust_index_def)

lemma slice_middle:
  "slice (pre @ xs @ rest) (int (length pre)) (int (length pre + length xs)) = xs"
  by (simp add: slice_def adjust_index_def)

lemma slice_from_suffix: "slice_from (pre @ rest) (int (length pre)) = rest"
  by (simp add: slice_from_def adjust_index_def)

lemma digits_value_digits:
  "\<forall>c \<in> set ds. is_digit c \<Longrightarrow> ds \<noteq> [] \<or> prev \<Longrightarrow>
     digits_value ds acc prev = Some (foldl (\<lambda>a c. a * 10 + ((of_char c :: nat) - 48)) acc ds)"
  by (induction ds arbitrary: acc prev) auto

lemma digit_not_space: "is_digit c \<Longrightarrow> \<not> is_space c"
  by (auto simp: is_digit_def is_space_def)

lemma strip_space_digits:
  assumes "\<forall>c \<in> set ds. is_digit c" and "ds \<noteq> []"
  shows "strip_space (SP # ds) = ds"
proof -
  have sp: "is_space SP" by (simp add: is_space_def)
  obtain d ds' where ds: "ds = d # ds'" using assms(2) by (cases ds) auto
  have "dropWhile is_space (SP # ds) = ds"
    using assms(1) sp by (simp add: ds digit_not_space)
  moreover have "dropWhile is_space (rev ds) = rev ds"
    using assms by (cases ds rule: rev_cases) (auto simp: digit_not_space)
  ultimately show ?thesis by (simp add: strip_space_def)
qed

lemma py_int_digits:
  assumes "\<forall>c \<in> set ds. is_digit c" and "ds \<noteq> []"
  shows "py_int (SP # ds) = Inr (int (dec_val ds))"
proof -
  obtain d ds' where ds: "ds = d # ds'" using assms(2) by (cases ds) auto
  have d: "is_digit d" using assms(1) ds by simp
  then have "d \<noteq> CHR ''+''" "d \<noteq> CHR ''-''" by (auto simp: is_digit_def)
  moreover have "digits_value ds 0 False = Some (dec_val ds)"
    using assms by (simp add: digits_value_digits dec_val_def)
  ultimately show ?thesis
    using strip_space_digits [OF assms] by (simp add: py_int_def ds)
qed

lemma decode_ascii_digits:
  "\<forall>c \<in> set ds. is_digit c \<Longrightarrow> decode_ascii (SP # ds) = Inr (SP # ds)"
  by (auto simp: decode_ascii_def is_digit_def)

lemma str_nat_digits: "\<forall>c \<in> set (str_nat n). is_digit c"
proof (induction n rule: str_nat.induct)
  case (1 n)
  show ?case
  proof (cases "n < 10")
    case True
    then show ?thesis by (subst str_nat.simps) (simp add: is_digit_def)
  next
    case False
    have "n mod 10 < 10" by simp
    then have "is_digit (char_of (48 + n mod 10))"
      by (simp add: is_digit_def) 
    with 1 False show ?thesis by (subst str_nat.simps) simp
  qed
qed

lemma str_nat_nonempty: "str_nat n \<noteq> []"
  by (subst str_nat.simps) simp

lemma dec_val_str_nat: "dec_val (str_nat n) = n"
proof (induction n rule: str_nat.induct)
  case (1 n)
  show ?case
  proof (cases "n < 10")
    case True
    then show ?thesis by (subst str_nat.simps) (simp add: dec_val_def)
  next
    case False
    have m: "n mod 10 < 10" by simp
    have "dec_val (str_nat n) = dec_val (str_nat (n div 10)) * 10 + n mod 10"
      using False m by (subst str_nat.simps) (simp add: dec_val_def)
    with 1 False show ?thesis by simp
  qed
qed


lemma repo_file_object_path:
  assumes "fs (gitdir repo @ [''objects'', a]) = Some Dir"
  shows "repo_file fs repo [''objects'', a, b] False
           = Inr (Some (gitdir repo @ [''objects'', a, b]), fs)"
  using assms by (simp add: repo_file_def repo_dir_def repo_path_def exists_def isdir_def node_at_def)

lemma object_read_framed:
  assumes dir: "fs (gitdir repo @ [''objects'', slice sha 0 2]) = Some Dir"
    and fl: "fs (gitdir repo @ [''objects'', slice sha 0 2, slice_from sha 2]) = Some (File z)"
    and z: "zdecompress z = Inr (ty @ [SP] @ ds @ [NUL] @ payload)"
    and ty: "SP \<notin> set ty"
    and ds: "ds \<noteq> []" "\<forall>c \<in> set ds. is_digit c"
  shows "object_read fs zdecompress repo sha =
           (if dec_val ds \<noteq> length payload
            then Inl (Exception (''Malformed object '' @ sha @ '': bad length''))
            else dispatch_result ty sha)"
proof -
  let ?raw = "ty @ [SP] @ ds @ [NUL] @ payload"
  have x: "find ?raw [SP] 0 = int (length ty)"
    using find_char0 [OF ty, of "ds @ [NUL] @ payload"] by simp
  have nul: "NUL \<notin> set (SP # ds)" using ds(2) by (auto simp: is_digit_def)
  have y: "find ?raw [NUL] (int (length ty)) = int (length ty + length (SP # ds))"
    using find_char [OF nul, of ty payload] by simp
  have s1: "slice ?raw 0 (int (length ty)) = ty"
    using slice_prefix [of ty "[SP] @ ds @ [NUL] @ payload"] by simp
  have s2: "slice ?raw (int (length ty)) (int (length ty + length (SP # ds))) = SP # ds"
    using slice_middle [of ty "SP # ds" "[NUL] @ payload"] by simp
  have s3: "slice_from ?raw (int (length ty + length (SP # ds)) + 1) = payload"
    using slice_from_suffix [of "ty @ SP # ds @ [NUL]" payload] by (simp add: add.commute)
  have isf: "isfile fs (gitdir repo @ [''objects'', slice sha 0 2, slice_from sha 2])"
    using fl by (simp add: isfile_def node_at_def)
  have rd: "read_file fs (gitdir repo @ [''objects'', slice sha 0 2, slice_from sha 2]) = Inr z"
    using fl by (simp add: read_file_def node_at_def)
  have rf: "repo_file fs repo [''objects'', slice sha 0 2, slice_from sha 2] False
              = Inr (Some (gitdir repo @ [''objects'', slice sha 0 2, slice_from sha 2]), fs)"
    using dir by (rule repo_file_object_path)
  show ?thesis
    unfolding object_read_def rf
    by (simp only: isf rd z x y s1 s2 s3 Let_def decode_ascii_digits [OF ds(2)]
          py_int_digits [OF ds(2) ds(1)] new_object_data dispatch_result_def
          sum.case prod.case option.case if_True if_False not_True_eq_False simp_thms)
      (auto simp: decode_ascii_def split: sum.splits)
qed


lemma dispatch_not_malformed:
  "dispatch_result ty sha \<noteq> Inl (Exception (''Malformed object '' @ sha @ '': bad length''))"
  by (auto simp: dispatch_result_def decode_ascii_def split: sum.splits if_splits)

text \<open>
  C7. A stored object whose file exists and whose bytes are a type token without a space,
  a space, a non-empty run of decimal digits, a null byte and the payload: when the
  number the digits denote differs from the number of payload bytes, \<open>object_read\<close>
  raises the malformed-object exception; when the two are equal, it does not.
\<close>

theorem object_read_length_check:
  assumes "fs (gitdir repo @ [''objects'', slice sha 0 2]) = Some Dir"
    and "fs (gitdir repo @ [''objects'', slice sha 0 2, slice_from sha 2]) = Some (File z)"
    and "zdecompress z = Inr (ty @ [SP] @ ds @ [NUL] @ payload)"
    and "SP \<notin> set ty" and "ds \<noteq> []" and "\<forall>c \<in> set ds. is_digit c"
  shows "(dec_val ds \<noteq> length payload \<longrightarrow>
            object_read fs zdecompress repo sha
              = Inl (Exception (''Malformed object '' @ sha @ '': bad length'')))
       \<and> (dec_val ds = length payload \<longrightarrow>
            object_read fs zdecompress repo sha
              \<noteq> Inl (Exception (''Malformed object '' @ sha @ '': bad length'')))"
proof -
  have "object_read fs zdecompress repo sha =
           (if dec_val ds \<noteq> length payload
            then Inl (Exception (''Malformed object '' @ sha @ '': bad length''))
            else dispatch_result ty sha)"
    using assms by (rule object_read_framed)
  then show ?thesis using dispatch_not_malformed [of ty sha] by simp
qed

text \<open>The hypotheses of C7 hold for a stored blob that declares 3 bytes, or 5, and holds 5.\<close>

theorem object_read_length_check_witness:
  "object_read
     (Map.empty([''r'', ''.git'', ''objects'', ''ab''] \<mapsto> Dir,
                [''r'', ''.git'', ''objects'', ''ab'', ''cd''] \<mapsto> File ''Z''))
     (\<lambda>z. Inr (''blob 3'' @ [NUL] @ ''hello''))
     \<lparr>worktree = [''r''], gitdir = [''r'', ''.git''], conf = []\<rparr> ''abcd''
     = Inl (Exception ''Malformed object abcd: bad length'')
   \<and> object_read
     (Map.empty([''r'', ''.git'', ''objects'', ''ab''] \<mapsto> Dir,
                [''r'', ''.git'', ''objects'', ''ab'', ''cd''] \<mapsto> File ''Z''))
     (\<lambda>z. Inr (''blob 5'' @ [NUL] @ ''hello''))
     \<lparr>worktree = [''r''], gitdir = [''r'', ''.git''], conf = []\<rparr> ''abcd''
     \<noteq> Inl (Exception ''Malformed object abcd: bad length'')"
  using object_read_length_check
          [of "Map.empty([''r'', ''.git'', ''objects'', ''ab''] \<mapsto> Dir,
                         [''r'', ''.git'', ''objects'', ''ab'', ''cd''] \<mapsto> File ''Z'')"
              "\<lparr>worktree = [''r''], gitdir = [''r'', ''.git''], conf = []\<rparr>" "''abcd''" "''Z''"
              "\<lambda>z. Inr (''blob 3'' @ [NUL] @ ''hello'')" "''blob''" "''3''" "''hello''"]
        object_read_length_check
          [of "Map.empty([''r'', ''.git'', ''objects'', ''ab''] \<mapsto> Dir,
                         [''r'', ''.git'', ''objects'', ''ab'', ''cd''] \<mapsto> File ''Z'')"
              "\<lparr>worktree = [''r''], gitdir = [''r'', ''.git''], conf = []\<rparr>" "''abcd''" "''Z''"
              "\<lambda>z. Inr (''blob 5'' @ [NUL] @ ''hello'')" "''blob''" "''5''" "''hello''"]
  by (simp add: slice_def slice_from_def adjust_index_def is_digit_def dec_val_def)

text \<open>
  C2. On a stored object with valid framing, \<open>object_read\<close> returns no object for any type
  token: \<open>commit\<close> and \<open>blob\<close> raise the exception of the inherited \<open>deserialize\<close>, \<open>tree\<close>
  and \<open>tag\<close> raise NameError, and any other ASCII token raises the unknown-type exception.
  The commit is not decoded by the KVLM codec and no payload is passed through.
\<close>

theorem object_read_dispatch:
  assumes "fs (gitdir repo @ [''objects'', slice sha 0 2]) = Some Dir"
    and "fs (gitdir repo @ [''objects'', slice sha 0 2, slice_from sha 2]) = Some (File z)"
    and "zdecompress z = Inr (ty @ [SP] @ str_nat (length payload) @ [NUL] @ payload)"
    and "SP \<notin> set ty"
  shows "(ty = ''commit'' \<or> ty = ''blob'' \<longrightarrow>
            object_read fs zdecompress repo sha = Inl (Exception ''Unimplemented!''))
       \<and> (ty = ''tree'' \<or> ty = ''tag'' \<longrightarrow>
            object_read fs zdecompress repo sha = Inl NameError)
       \<and> (ty \<notin> {''commit'', ''blob'', ''tree'', ''tag''} \<and> decode_ascii ty = Inr ty \<longrightarrow>
            object_read fs zdecompress repo sha
              = Inl (Exception (''Unknown type '' @ ty @ '' for object '' @ sha)))"
proof -
  have "object_read fs zdecompress repo sha =
           (if dec_val (str_nat (length payload)) \<noteq> length payload
            then Inl (Exception (''Malformed object '' @ sha @ '': bad length''))
            else dispatch_result ty sha)"
    using assms str_nat_nonempty str_nat_digits by (rule object_read_framed)
  then show ?thesis by (simp add: dec_val_str_nat dispatch_result_def)
qed

text \<open>The hypotheses of C2 hold for a stored commit with one field and a message.\<close>

theorem object_read_dispatch_witness:
  "object_read
     (Map.empty([''r'', ''.git'', ''objects'', ''ab''] \<mapsto> Dir,
                [''r'', ''.git'', ''objects'', ''ab'', ''cd''] \<mapsto> File ''Z''))
     (\<lambda>z. Inr (''commit 13'' @ [NUL] @ ''tree abc'' @ [NL, NL] @ ''msg''))
     \<lparr>worktree = [''r''], gitdir = [''r'', ''.git''], conf = []\<rparr> ''abcd''
     = Inl (Exception ''Unimplemented!'')"
proof -
  have n: "str_nat (length (''tree abc'' @ [NL, NL] @ ''msg'')) = ''13''" by code_simp
  show ?thesis
    using object_read_dispatch
          [of "Map.empty([''r'', ''.git'', ''objects'', ''ab''] \<mapsto> Dir,
                         [''r'', ''.git'', ''objects'', ''ab'', ''cd''] \<mapsto> File ''Z'')"
              "\<lparr>worktree = [''r''], gitdir = [''r'', ''.git''], conf = []\<rparr>" "''abcd''" "''Z''"
              "\<lambda>z. Inr (''commit 13'' @ [NUL] @ ''tree abc'' @ [NL, NL] @ ''msg'')" "''commit''"
              "''tree abc'' @ [NL, NL] @ ''msg''"]
    unfolding n
    by (simp add: slice_def slice_from_def adjust_index_def)
qed

text \<open>
  C6. When the directory named by the first two characters of the digest is absent,
  so that no object file exists at the storage path, \<open>object_read\<close> raises TypeError
  instead of returning \<open>None\<close>.
\<close>

theorem object_read_missing_directory:
  assumes "fs (gitdir repo @ [''objects'', slice sha 0 2]) = None"
  shows "object_read fs zdecompress repo sha = Inl TypeError"
  using assms
  by (simp add: object_read_def repo_file_def repo_dir_def repo_path_def exists_def node_at_def)

text \<open>The hypothesis of C6 holds in a repository whose object directory is empty.\<close>

theorem object_read_missing_directory_witness:
  "object_read (Map.empty([''r'', ''.git'', ''objects''] \<mapsto> Dir)) Inr
     \<lparr>worktree = [''r''], gitdir = [''r'', ''.git''], conf = []\<rparr>
     ''da39a3ee5e6b4b0d3255bfef95601890afd80709'' = Inl TypeError"
  using object_read_missing_directory
          [of "Map.empty([''r'', ''.git'', ''objects''] \<mapsto> Dir)"
              "\<lparr>worktree = [''r''], gitdir = [''r'', ''.git''], conf = []\<rparr>"
              "''da39a3ee5e6b4b0d3255bfef95601890afd80709''" Inr]
  by (simp add: slice_def adjust_index_def)

text \<open>When that directory exists and holds no file of the name, the result is \<open>None\<close>.\<close>

lemma object_read_missing_file:
  assumes "fs (gitdir repo @ [''objects'', slice sha 0 2]) = Some Dir"
    and "\<not> isfile fs (gitdir repo @ [''objects'', slice sha 0 2, slice_from sha 2])"
  shows "object_read fs zdecompress repo sha = Inr None"
proof -
  have rf: "repo_file fs repo [''objects'', slice sha 0 2, slice_from sha 2] False
              = Inr (Some (gitdir repo @ [''objects'', slice sha 0 2, slice_from sha 2]), fs)"
    using assms(1) by (rule repo_file_object_path)
  show ?thesis unfolding object_read_def rf using assms(2) by simp
qed

text \<open>
  C1. Writing an object whose two-character prefix is new stores the compressed bytes in
  a file named by the first two characters of the digest, directly under \<open>objects\<close>; the
  remaining characters name nothing. Reading the returned digest then looks for a
  directory of that name, finds the file and raises.
\<close>

theorem object_write_path:
  assumes ser: "serialize obj = Inr data"
    and objs: "fs (gitdir repo @ [''objects'']) = Some Dir"
    and sha: "sha = sha1 (object_type (cls obj) @ [SP] @ str_nat (length data) @ [NUL] @ data)"
    and fresh: "fs (gitdir repo @ [''objects'', slice sha 0 2]) = None"
  shows "object_write fs sha1 zcompress obj (Some repo)
           = Inr (sha, fs(gitdir repo @ [''objects'', slice sha 0 2] \<mapsto>
                File (zcompress (object_type (cls obj) @ [SP] @ str_nat (length data)
                                   @ [NUL] @ data))))
       \<and> object_read
            (fs(gitdir repo @ [''objects'', slice sha 0 2] \<mapsto>
                File (zcompress (object_type (cls obj) @ [SP] @ str_nat (length data)
                                   @ [NUL] @ data))))
            zdecompress repo sha
           = Inl (Exception (''Not a directory ''
                    @ path_str (gitdir repo @ [''objects'', slice sha 0 2])))"
proof -
  have rf: "repo_file fs repo [''objects'', slice sha 0 2] True
              = Inr (Some (gitdir repo @ [''objects'', slice sha 0 2]), fs)"
    using objs by (simp add: repo_file_def repo_dir_def repo_path_def exists_def isdir_def
        node_at_def)
  have w: "write_file fs (gitdir repo @ [''objects'', slice sha 0 2]) b
             = Inr (fs(gitdir repo @ [''objects'', slice sha 0 2] \<mapsto> File b))" for b
    using objs fresh by (simp add: write_file_def isdir_def node_at_def butlast_append)
  have ne: "\<not> exists fs (gitdir repo @ [''objects'', slice sha 0 2])"
    using fresh by (simp add: exists_def node_at_def)
  have wr: "object_write fs sha1 zcompress obj (Some repo)
           = Inr (sha, fs(gitdir repo @ [''objects'', slice sha 0 2] \<mapsto>
                File (zcompress (object_type (cls obj) @ [SP] @ str_nat (length data)
                                   @ [NUL] @ data))))"
    unfolding object_write_def ser using rf ne w sha by (simp add: Let_def)
  have rd: "object_read
            (fs(gitdir repo @ [''objects'', slice sha 0 2] \<mapsto> File b))
            zdecompress repo sha
           = Inl (Exception (''Not a directory ''
                    @ path_str (gitdir repo @ [''objects'', slice sha 0 2])))" for b
    by (simp add: object_read_def repo_file_def repo_dir_def repo_path_def exists_def
        isdir_def node_at_def)
  show ?thesis using wr rd by simp
qed

text \<open>The hypotheses of C1 hold for a commit with a message and an empty object directory.\<close>

theorem object_write_path_witness:
  "object_write (Map.empty([''r'', ''.git'', ''objects''] \<mapsto> Dir))
     (\<lambda>b. ''da39a3ee5e6b4b0d3255bfef95601890afd80709'') (\<lambda>b. b)
     \<lparr>cls = GitCommit, blobdata = None, kvlm = Some [(None, Single ''msg'')]\<rparr>
     (Some \<lparr>worktree = [''r''], gitdir = [''r'', ''.git''], conf = []\<rparr>)
     = Inr (''da39a3ee5e6b4b0d3255bfef95601890afd80709'',
            Map.empty([''r'', ''.git'', ''objects''] \<mapsto> Dir,
                      [''r'', ''.git'', ''objects'', ''da''] \<mapsto>
                         File (''commit 5'' @ [NUL, NL] @ ''msg'' @ [NL])))
   \<and> object_read
       (Map.empty([''r'', ''.git'', ''objects''] \<mapsto> Dir,
                  [''r'', ''.git'', ''objects'', ''da''] \<mapsto>
                     File (''commit 5'' @ [NUL, NL] @ ''msg'' @ [NL])))
       Inr \<lparr>worktree = [''r''], gitdir = [''r'', ''.git''], conf = []\<rparr>
       ''da39a3ee5e6b4b0d3255bfef95601890afd80709''
     = Inl (Exception ''Not a directory /r/.git/objects/da'')"
proof -
  have "str_nat 5 = ''5''" by code_simp
  then have n: "str_nat (Suc (Suc (Suc (Suc (Suc 0))))) = ''5''"
    by (simp add: eval_nat_numeral)
  show ?thesis
    using object_write_path
          [of "\<lparr>cls = GitCommit, blobdata = None, kvlm = Some [(None, Single ''msg'')]\<rparr>"
              "[NL] @ ''msg'' @ [NL]"
              "Map.empty([''r'', ''.git'', ''objects''] \<mapsto> Dir)"
              "\<lparr>worktree = [''r''], gitdir = [''r'', ''.git''], conf = []\<rparr>"
              "''da39a3ee5e6b4b0d3255bfef95601890afd80709''"
              "\<lambda>b. ''da39a3ee5e6b4b0d3255bfef95601890afd80709''" "\<lambda>b. b" Inr]
    by (simp add: kvlm_serialize_def dict_get_def slice_def adjust_index_def n path_str_def)
qed

section \<open>Properties of the repository locator\<close>

lemma repo_find_here:
  assumes "isdir fs (realpath p @ [''.git''])"
  shows "repo_find fs cr cg p required =
           (case GitRepository_init fs cr cg (realpath p) False of
              Inl e \<Rightarrow> Inl e | Inr r \<Rightarrow> Inr (Some r))"
  using assms by (subst repo_find.simps) simp

lemma repo_find_root:
  assumes "\<not> isdir fs (realpath p @ [''.git''])" and "realpath p = []"
  shows "repo_find fs cr cg p required =
           (if required then Inl (Exception ''No git directory.'') else Inr None)"
  using assms by (subst repo_find.simps) (simp add: realpath_snoc realpath_def)

lemma repo_find_up:
  assumes "\<not> isdir fs (realpath p @ [''.git''])" and "realpath p \<noteq> []"
  shows "repo_find fs cr cg p required = repo_find fs cr cg (butlast (realpath p)) required"
proof -
  have "butlast (realpath p) \<noteq> realpath p"
    using assms(2) by (metis length_butlast diff_less length_greater_0_conv less_irrefl zero_less_one)
  then show ?thesis
    using assms(1) by (subst repo_find.simps) (simp add: realpath_parent Let_def)
qed

lemma realpath_butlast: "realpath (butlast (realpath p)) = butlast (realpath p)"
  by (simp add: realpath_canonical canonical_butlast canonical_realpath)

lemma repo_find_found:
  assumes "n \<le> length (realpath p)"
    and "isdir fs (take n (realpath p) @ [''.git''])"
    and "\<forall>m. n < m \<and> m \<le> length (realpath p) \<longrightarrow> \<not> isdir fs (take m (realpath p) @ [''.git''])"
  shows "repo_find fs cr cg p required =
           (case GitRepository_init fs cr cg (take n (realpath p)) False of
              Inl e \<Rightarrow> Inl e | Inr r \<Rightarrow> Inr (Some r))"
  using assms
proof (induction "length (realpath p) - n" arbitrary: p)
  case 0
  then have "take n (realpath p) = realpath p" by simp
  with 0 show ?case by (simp add: repo_find_here)
next
  case (Suc k)
  let ?q = "realpath p"
  from Suc.hyps(2) have lt: "n < length ?q" by simp
  then have nd: "\<not> isdir fs (?q @ [''.git''])" using Suc.prems(3) by auto
  have ne: "?q \<noteq> []" using lt by auto
  have up: "repo_find fs cr cg p required = repo_find fs cr cg (butlast ?q) required"
    using nd ne by (rule repo_find_up)
  have rb: "realpath (butlast ?q) = butlast ?q" by (rule realpath_butlast)
  have tk: "take m (butlast ?q) = take m ?q" if "m \<le> length ?q - 1" for m
    using that by (simp add: butlast_conv_take)
  have k: "k = length (realpath (butlast ?q)) - n" using Suc.hyps(2) by (simp add: rb)
  have n': "n \<le> length (realpath (butlast ?q))" using lt by (simp add: rb)
  have d': "isdir fs (take n (realpath (butlast ?q)) @ [''.git''])"
    using Suc.prems(2) lt by (simp add: rb tk)
  have a': "\<forall>m. n < m \<and> m \<le> length (realpath (butlast ?q))
              \<longrightarrow> \<not> isdir fs (take m (realpath (butlast ?q)) @ [''.git''])"
    using Suc.prems(3) by (auto simp: rb tk)
  have "repo_find fs cr cg (butlast ?q) required =
           (case GitRepository_init fs cr cg (take n (realpath (butlast ?q))) False of
              Inl e \<Rightarrow> Inl e | Inr r \<Rightarrow> Inr (Some r))"
    using k n' d' a' by (rule Suc.hyps(1))
  then show ?case using up lt by (simp add: rb tk)
qed

lemma repo_find_absent:
  assumes "\<forall>m. m \<le> length (realpath p) \<longrightarrow> \<not> isdir fs (take m (realpath p) @ [''.git''])"
  shows "repo_find fs cr cg p required =
           (if required then Inl (Exception ''No git directory.'') else Inr None)"
  using assms
proof (induction "length (realpath p)" arbitrary: p)
  case 0
  then have "\<not> isdir fs (realpath p @ [''.git''])" by auto
  with 0 show ?case by (simp add: repo_find_root)
next
  case (Suc k)
  let ?q = "realpath p"
  have nd: "\<not> isdir fs (?q @ [''.git''])" using Suc.prems by auto
  have ne: "?q \<noteq> []" using Suc.hyps(2) by auto
  have up: "repo_find fs cr cg p required = repo_find fs cr cg (butlast ?q) required"
    using nd ne by (rule repo_find_up)
  have rb: "realpath (butlast ?q) = butlast ?q" by (rule realpath_butlast)
  have tk: "take m (butlast ?q) = take m ?q" if "m \<le> length ?q - 1" for m
    using that by (simp add: butlast_conv_take)
  have k: "k = length (realpath (butlast ?q))" using Suc.hyps(2) by (simp add: rb)
  have a': "\<forall>m. m \<le> length (realpath (butlast ?q))
              \<longrightarrow> \<not> isdir fs (take m (realpath (butlast ?q)) @ [''.git''])"
    using Suc.prems by (auto simp: rb tk)
  show ?case using up Suc.hyps(1) [OF k a'] by simp
qed

lemma GitRepository_init_root:
  "GitRepository_init fs cr cg a force = Inr r \<Longrightarrow> worktree r = a \<and> gitdir r = a @ [''.git'']"
  by (auto simp: GitRepository_init_def Let_def split: sum.splits if_splits option.splits prod.splits)


lemma GitRepository_init_missing_config:
  assumes "isdir fs (a @ [''.git''])" and "\<not> exists fs (a @ [''.git'', ''config''])"
  shows "GitRepository_init fs cr cg a False = Inl (Exception ''Configuration file missing'')"
  using assms
  by (simp add: GitRepository_init_def repo_file_def repo_dir_def repo_path_def exists_def
      isdir_def Let_def)

lemma GitRepository_init_version_0:
  assumes "isdir fs (a @ [''.git''])"
    and "fs (a @ [''.git'', ''config'']) = Some (File b)"
    and "cr b = Inr cfg"
    and "cg cfg ''core'' ''repositoryformatversion'' = Inr v"
    and "py_int v = Inr 0"
  shows "GitRepository_init fs cr cg a False
           = Inr \<lparr>worktree = a, gitdir = a @ [''.git''], conf = cfg\<rparr>"
  using assms
  by (simp add: GitRepository_init_def repo_file_def repo_dir_def repo_path_def exists_def
      isdir_def node_at_def read_file_def Let_def)

text \<open>
  C8 fails as stated: at the first ancestor that holds the metadata directory the
  repository is constructed, and the construction raises when the directory holds no
  configuration file. Here \<open>/a/b/.git\<close> is an empty directory: the walk from \<open>/a/b\<close> ends
  with that exception, not with a handle and not with \<open>None\<close>, although \<open>required\<close> is false
  and \<open>/a\<close> is a complete repository.
\<close>

theorem repo_find_locates_counterexample:
  "isdir (Map.empty([''a''] \<mapsto> Dir, [''a'', ''.git''] \<mapsto> Dir,
                    [''a'', ''.git'', ''config''] \<mapsto> File ''cfg'',
                    [''a'', ''b''] \<mapsto> Dir, [''a'', ''b'', ''.git''] \<mapsto> Dir))
         [''a'', ''b'', ''.git'']
   \<and> repo_find
       (Map.empty([''a''] \<mapsto> Dir, [''a'', ''.git''] \<mapsto> Dir,
                  [''a'', ''.git'', ''config''] \<mapsto> File ''cfg'',
                  [''a'', ''b''] \<mapsto> Dir, [''a'', ''b'', ''.git''] \<mapsto> Dir))
       (\<lambda>b. Inr [(''core'', [(''repositoryformatversion'', ''0'')])])
       (\<lambda>c s opt. Inr ''0'')
       [''a'', ''b''] False
     = Inl (Exception ''Configuration file missing'')"
proof -
  have rp: "realpath [''a'', ''b''] = [''a'', ''b'']" by (simp add: realpath_def)
  show ?thesis
    by (subst repo_find.simps)
       (simp add: rp GitRepository_init_def repo_file_def repo_dir_def repo_path_def
          exists_def isdir_def node_at_def Let_def)
qed

text \<open>
  C8, amended. \<open>repo_find\<close> canonicalizes the start path and looks at each directory from
  it upward. If the ancestor of depth \<open>n\<close> holds the metadata directory and no deeper one
  does, the repository is constructed at that ancestor: the result is the constructed
  handle, rooted there, when the construction succeeds, and the exception of the
  construction otherwise, whatever \<open>required\<close> is. The construction raises when the
  metadata directory holds no configuration file, and succeeds when the file is there,
  is read, and gives the format version 0. If no ancestor up to the root holds the
  metadata directory, the result is the not-found exception when \<open>required\<close> is true and
  \<open>None\<close> otherwise.
\<close>

theorem repo_find_locates:
  "(n \<le> length (realpath p) \<and> isdir fs (take n (realpath p) @ [''.git''])
      \<and> (\<forall>m. n < m \<and> m \<le> length (realpath p)
             \<longrightarrow> \<not> isdir fs (take m (realpath p) @ [''.git'']))
    \<longrightarrow> repo_find fs cr cg p required =
          (case GitRepository_init fs cr cg (take n (realpath p)) False of
             Inl e \<Rightarrow> Inl e | Inr r \<Rightarrow> Inr (Some r))
        \<and> (\<forall>r. GitRepository_init fs cr cg (take n (realpath p)) False = Inr r
               \<longrightarrow> worktree r = take n (realpath p)
                   \<and> gitdir r = take n (realpath p) @ [''.git''])
        \<and> (\<not> exists fs (take n (realpath p) @ [''.git'', ''config''])
               \<longrightarrow> repo_find fs cr cg p required
                     = Inl (Exception ''Configuration file missing''))
        \<and> (\<forall>b cfg v. fs (take n (realpath p) @ [''.git'', ''config'']) = Some (File b)
                 \<and> cr b = Inr cfg
                 \<and> cg cfg ''core'' ''repositoryformatversion'' = Inr v
                 \<and> py_int v = Inr 0
               \<longrightarrow> repo_find fs cr cg p required
                     = Inr (Some \<lparr>worktree = take n (realpath p),
                                   gitdir = take n (realpath p) @ [''.git''],
                                   conf = cfg\<rparr>)))
   \<and> ((\<forall>m. m \<le> length (realpath p) \<longrightarrow> \<not> isdir fs (take m (realpath p) @ [''.git'']))
    \<longrightarrow> repo_find fs cr cg p required =
          (if required then Inl (Exception ''No git directory.'') else Inr None))"
proof (intro conjI impI)
  assume h: "n \<le> length (realpath p) \<and> isdir fs (take n (realpath p) @ [''.git''])
      \<and> (\<forall>m. n < m \<and> m \<le> length (realpath p)
             \<longrightarrow> \<not> isdir fs (take m (realpath p) @ [''.git'']))"
  then have f: "repo_find fs cr cg p required =
          (case GitRepository_init fs cr cg (take n (realpath p)) False of
             Inl e \<Rightarrow> Inl e | Inr r \<Rightarrow> Inr (Some r))"
    using repo_find_found [of n p fs cr cg required] by blast
  from f show "repo_find fs cr cg p required =
          (case GitRepository_init fs cr cg (take n (realpath p)) False of
             Inl e \<Rightarrow> Inl e | Inr r \<Rightarrow> Inr (Some r))" .
  show "\<forall>r. GitRepository_init fs cr cg (take n (realpath p)) False = Inr r
               \<longrightarrow> worktree r = take n (realpath p)
                   \<and> gitdir r = take n (realpath p) @ [''.git'']"
    using GitRepository_init_root [of fs cr cg "take n (realpath p)" False] by blast
  show "repo_find fs cr cg p required = Inl (Exception ''Configuration file missing'')"
    if "\<not> exists fs (take n (realpath p) @ [''.git'', ''config''])"
    using h that unfolding f by (simp add: GitRepository_init_missing_config)
  show "\<forall>b cfg v. fs (take n (realpath p) @ [''.git'', ''config'']) = Some (File b)
                 \<and> cr b = Inr cfg
                 \<and> cg cfg ''core'' ''repositoryformatversion'' = Inr v
                 \<and> py_int v = Inr 0
               \<longrightarrow> repo_find fs cr cg p required
                     = Inr (Some \<lparr>worktree = take n (realpath p),
                                   gitdir = take n (realpath p) @ [''.git''],
                                   conf = cfg\<rparr>)"
    using h unfolding f by (auto simp: GitRepository_init_version_0)
next
  assume "\<forall>m. m \<le> length (realpath p) \<longrightarrow> \<not> isdir fs (take m (realpath p) @ [''.git''])"
  then show "repo_find fs cr cg p required =
          (if required then Inl (Exception ''No git directory.'') else Inr None)"
    by (rule repo_find_absent)
qed

text \<open>
  The hypotheses of the amended C8 hold for the start path \<open>/a/b/c/\<close> with a configured
  metadata directory in \<open>/a/b\<close>, for \<open>/a/b\<close> with a metadata directory without a
  configuration file, and for \<open>/x/y\<close> in an empty file system.
\<close>

theorem repo_find_locates_witness:
  "repo_find
     (Map.empty([''a''] \<mapsto> Dir, [''a'', ''b''] \<mapsto> Dir, [''a'', ''b'', ''c''] \<mapsto> Dir,
                [''a'', ''b'', ''.git''] \<mapsto> Dir,
                [''a'', ''b'', ''.git'', ''config''] \<mapsto> File ''cfg''))
     (\<lambda>b. Inr [(''core'', [(''repositoryformatversion'', ''0'')])])
     (\<lambda>c s opt. case map_of c s of
                   None \<Rightarrow> Inl (ConfigError ''NoSectionError'')
                 | Some os \<Rightarrow> (case map_of os opt of
                                None \<Rightarrow> Inl (ConfigError ''NoOptionError'')
                              | Some v \<Rightarrow> Inr v))
     [''a'', ''b'', ''c'', []] True
     = Inr (Some \<lparr>worktree = [''a'', ''b''], gitdir = [''a'', ''b'', ''.git''],
                   conf = [(''core'', [(''repositoryformatversion'', ''0'')])]\<rparr>)
   \<and> repo_find
       (Map.empty([''a''] \<mapsto> Dir, [''a'', ''b''] \<mapsto> Dir, [''a'', ''b'', ''.git''] \<mapsto> Dir))
       (\<lambda>b. Inr []) (\<lambda>c s opt. Inl (ConfigError ''NoSectionError'')) [''a'', ''b''] True
     = Inl (Exception ''Configuration file missing'')
   \<and> repo_find Map.empty (\<lambda>b. Inr []) (\<lambda>c s opt. Inl (ConfigError ''NoSectionError''))
       [''x'', ''y''] True
     = Inl (Exception ''No git directory.'')
   \<and> repo_find Map.empty (\<lambda>b. Inr []) (\<lambda>c s opt. Inl (ConfigError ''NoSectionError''))
       [''x'', ''y''] False = Inr None"
proof -
  let ?fs = "Map.empty([''a''] \<mapsto> Dir, [''a'', ''b''] \<mapsto> Dir, [''a'', ''b'', ''c''] \<mapsto> Dir,
                [''a'', ''b'', ''.git''] \<mapsto> Dir,
                [''a'', ''b'', ''.git'', ''config''] \<mapsto> File ''cfg'')"
  let ?fs2 = "Map.empty([''a''] \<mapsto> Dir, [''a'', ''b''] \<mapsto> Dir,
                [''a'', ''b'', ''.git''] \<mapsto> (Dir :: node))"
  let ?cr = "\<lambda>b :: bytes. (Inr [(''core'', [(''repositoryformatversion'', ''0'')])] :: error + config)"
  let ?cg = "\<lambda>(c :: config) s opt. case map_of c s of
                   None \<Rightarrow> Inl (ConfigError ''NoSectionError'')
                 | Some os \<Rightarrow> (case map_of os opt of
                                None \<Rightarrow> Inl (ConfigError ''NoOptionError'')
                              | Some v \<Rightarrow> (Inr v :: error + string))"
  let ?ng = "\<lambda>(c :: config) (s :: string) (opt :: string).
               (Inl (ConfigError ''NoSectionError'') :: error + string)"
  have rp: "realpath [''a'', ''b'', ''c'', []] = [''a'', ''b'', ''c'']"
    by (simp add: realpath_def)
  have rb: "realpath [''a'', ''b''] = [''a'', ''b'']"
    by (simp add: realpath_def)
  have m3: "m = 3" if "2 < m" "m \<le> 3" for m :: nat using that by simp
  have above: "\<forall>m. 2 < m \<and> m \<le> length (realpath [''a'', ''b'', ''c'', []])
                 \<longrightarrow> \<not> isdir ?fs (take m (realpath [''a'', ''b'', ''c'', []]) @ [''.git''])"
    unfolding rp by (auto dest!: m3 simp: isdir_def node_at_def)
  have here: "isdir ?fs (take 2 (realpath [''a'', ''b'', ''c'', []]) @ [''.git''])"
    unfolding rp by (simp add: isdir_def node_at_def)
  have cfg: "?fs (take 2 (realpath [''a'', ''b'', ''c'', []]) @ [''.git'', ''config''])
               = Some (File ''cfg'')"
    unfolding rp by simp
  have zero: "py_int ''0'' = Inr 0"
    by (simp add: py_int_def strip_space_def is_space_def is_digit_def)
  have "repo_find ?fs ?cr ?cg [''a'', ''b'', ''c'', []] True
          = Inr (Some \<lparr>worktree = [''a'', ''b''], gitdir = [''a'', ''b'', ''.git''],
                        conf = [(''core'', [(''repositoryformatversion'', ''0'')])]\<rparr>)"
  proof -
    let ?P = "[''a'', ''b'', ''c'', []] :: path"
    have le: "2 \<le> length (realpath ?P)" by (simp add: rp)
    have "\<forall>b cfg v. ?fs (take 2 (realpath ?P) @ [''.git'', ''config'']) = Some (File b)
                 \<and> ?cr b = Inr cfg
                 \<and> ?cg cfg ''core'' ''repositoryformatversion'' = Inr v
                 \<and> py_int v = Inr 0
               \<longrightarrow> repo_find ?fs ?cr ?cg ?P True
                     = Inr (Some \<lparr>worktree = take 2 (realpath ?P),
                                   gitdir = take 2 (realpath ?P) @ [''.git''],
                                   conf = cfg\<rparr>)"
      using repo_find_locates [of 2 ?P ?fs ?cr ?cg True] le here above by blast
    then have "?fs (take 2 (realpath ?P) @ [''.git'', ''config'']) = Some (File ''cfg'')
                 \<and> ?cr ''cfg'' = Inr [(''core'', [(''repositoryformatversion'', ''0'')])]
                 \<and> ?cg [(''core'', [(''repositoryformatversion'', ''0'')])]
                       ''core'' ''repositoryformatversion'' = Inr ''0''
                 \<and> py_int ''0'' = Inr 0
               \<longrightarrow> repo_find ?fs ?cr ?cg ?P True
                     = Inr (Some \<lparr>worktree = take 2 (realpath ?P),
                                   gitdir = take 2 (realpath ?P) @ [''.git''],
                                   conf = [(''core'', [(''repositoryformatversion'', ''0'')])]\<rparr>)"
      by blast
    then show ?thesis using cfg zero by (simp add: rp)
  qed
  moreover have "repo_find ?fs2 (\<lambda>b. Inr []) ?ng [''a'', ''b''] True
     = Inl (Exception ''Configuration file missing'')"
  proof -
    let ?Q = "[''a'', ''b''] :: path"
    have le: "2 \<le> length (realpath ?Q)" by (simp add: rb)
    have here2: "isdir ?fs2 (take 2 (realpath ?Q) @ [''.git''])"
      by (simp add: rb isdir_def node_at_def)
    have above2: "\<forall>m. 2 < m \<and> m \<le> length (realpath ?Q)
                    \<longrightarrow> \<not> isdir ?fs2 (take m (realpath ?Q) @ [''.git''])"
      unfolding rb by auto
    have nocfg: "\<not> exists ?fs2 (take 2 (realpath ?Q) @ [''.git'', ''config''])"
      by (simp add: rb exists_def node_at_def)
    have "\<not> exists ?fs2 (take 2 (realpath ?Q) @ [''.git'', ''config''])
            \<longrightarrow> repo_find ?fs2 (\<lambda>b. Inr []) ?ng ?Q True
                  = Inl (Exception ''Configuration file missing'')"
      using repo_find_locates [of 2 ?Q ?fs2 "\<lambda>b. Inr []" ?ng True] le here2 above2 by blast
    then show ?thesis using nocfg by blast
  qed
  moreover have none: "\<forall>m. m \<le> length (realpath [''x'', ''y''])
                \<longrightarrow> \<not> isdir Map.empty (take m (realpath [''x'', ''y'']) @ [''.git''])"
    by (simp add: isdir_def node_at_def)
  moreover have "repo_find Map.empty (\<lambda>b. Inr []) ?ng [''x'', ''y''] True
     = Inl (Exception ''No git directory.'')"
    using repo_find_locates [of 0 "[''x'', ''y'']" Map.empty "\<lambda>b. Inr []" ?ng True] none by simp
  moreover have "repo_find Map.empty (\<lambda>b. Inr []) ?ng [''x'', ''y''] False = Inr None"
    using repo_find_locates [of 0 "[''x'', ''y'']" Map.empty "\<lambda>b. Inr []" ?ng False] none by simp
  ultimately show ?thesis by simp
qed

section \<open>Properties of the commit graph walker\<close>

lemma object_read_no_object: "object_read fs zdecompress repo sha \<noteq> Inr (Some ob)"
  by (auto simp: object_read_def new_object_data Let_def
           split: sum.splits prod.splits option.splits if_splits)

lemma visit_raises:
  "\<exists>e. visit fs zdecompress decode_utf8 repo sha out = (out, Inl e)"
proof (cases "object_read fs zdecompress repo sha")
  case (Inl e)
  then show ?thesis by (simp add: visit_def)
next
  case (Inr r)
  then show ?thesis
    using object_read_no_object [of fs zdecompress repo sha]
    by (cases r) (simp_all add: visit_def)
qed

text \<open>
  C9. A walk from a digest that is in the visited set returns at once, with nothing read
  and nothing printed. A walk from a digest that is not in the set adds the digest to the
  set and then ends with an exception, before any line is printed: \<open>object_read\<close> returns
  no object. No ancestor is reached, so the shared ancestor of a diamond is printed not
  once but never. One unit of fuel is enough: the walk returns.
\<close>

theorem log_graphviz_raises:
  "(sha \<in> seen \<longrightarrow>
      log_graphviz (Suc n) fs zdecompress decode_utf8 repo sha (seen, out)
        = Some ((seen, out), None))
   \<and> (sha \<notin> seen \<longrightarrow>
      (\<exists>e. log_graphviz (Suc n) fs zdecompress decode_utf8 repo sha (seen, out)
             = Some ((insert sha seen, out), Some e)))"
  using visit_raises [of fs zdecompress decode_utf8 repo sha out] by auto

text \<open>
  The hypotheses of C9 hold at the head of a stored diamond of four commits, with the
  visited set empty, and at its shared ancestor once that is in the set.
\<close>

theorem log_graphviz_raises_witness:
  "log_graphviz (Suc 3) diamond_fs Inr (\<lambda>b. Inr (str_of b)) diamond_repo sha_S ({}, [])
     = Some (({sha_S}, []), Some (Exception ''Unimplemented!''))
   \<and> log_graphviz (Suc 3) diamond_fs Inr (\<lambda>b. Inr (str_of b)) diamond_repo sha_R ({sha_R}, [])
     = Some (({sha_R}, []), None)"
proof -
  have sl: "slice sha_S 0 2 = ''aa''" "slice_from sha_S 2 = drop 2 sha_S"
    by (simp_all add: sha_S_def slice_def slice_from_def adjust_index_def)
  have "object_read diamond_fs Inr diamond_repo sha_S =
           (if dec_val ''102'' \<noteq> length commit_S
            then Inl (Exception (''Malformed object '' @ sha_S @ '': bad length''))
            else dispatch_result ''commit'' sha_S)"
  proof (rule object_read_framed)
    show "diamond_fs (gitdir diamond_repo @ [''objects'', slice sha_S 0 2]) = Some Dir"
      unfolding sl by (simp add: diamond_fs_def diamond_repo_def)
    show "diamond_fs (gitdir diamond_repo @ [''objects'', slice sha_S 0 2, slice_from sha_S 2])
            = Some (File (''commit 102'' @ [NUL] @ commit_S))"
      unfolding sl by (simp add: diamond_fs_def diamond_repo_def)
    show "Inr (''commit 102'' @ [NUL] @ commit_S)
            = (Inr (''commit'' @ [SP] @ ''102'' @ [NUL] @ commit_S) :: error + bytes)"
      by simp
    show "SP \<notin> set ''commit''" by simp
    show "''102'' \<noteq> []" by simp
    show "\<forall>c \<in> set ''102''. is_digit c" by (simp add: is_digit_def)
  qed
  then have rd: "object_read diamond_fs Inr diamond_repo sha_S
                   = Inl (Exception ''Unimplemented!'')"
    by (simp add: dec_val_def commit_S_def sha_A_def sha_B_def dispatch_result_def)
  have ev: "log_graphviz (Suc n) diamond_fs Inr (\<lambda>b. Inr (str_of b)) diamond_repo sha_S ({}, [])
              = Some (({sha_S}, []), Some (Exception ''Unimplemented!''))" for n
    using rd by (simp add: visit_def)
  show ?thesis
    using log_graphviz_raises [of sha_S "{}" 3 diamond_fs Inr "\<lambda>b. Inr (str_of b)" diamond_repo "[]"]
      log_graphviz_raises [of sha_R "{sha_R}" 3 diamond_fs Inr "\<lambda>b. Inr (str_of b)" diamond_repo "[]"]
      ev [of 3]
    by simp
qed

section \<open>Properties of the KVLM codec\<close>

lemma getitem_at: "getitem (xs @ c # ys) (int (length xs)) = Inr c"
  by (simp add: getitem_def)

lemma getitem_end: "getitem xs (int (length xs)) = Inl IndexError"
  by (simp add: getitem_def)

lemma folded_no_newline: "NL \<notin> set w \<Longrightarrow> folded w"
  by (induction w) auto

lemma folded_append: "NL \<notin> set a \<Longrightarrow> folded b \<Longrightarrow> folded (a @ b)"
  by (induction a) auto

lemma folded_split:
  "folded (ys @ NL # zs) \<Longrightarrow> NL \<notin> set ys \<Longrightarrow> (\<exists>zs'. zs = SP # zs') \<and> folded zs"
  by (induction ys) (auto simp: neq_Nil_conv)

lemma value_end_scan:
  assumes "folded w"
  shows "value_end (p @ w @ NL # rest) (int (length p) - 1) =
           (case rest of
              [] \<Rightarrow> Some (Inl IndexError)
            | c # cs \<Rightarrow>
                if c \<noteq> SP then Some (Inr (int (length p + length w)))
                else value_end (p @ w @ NL # rest) (int (length p + length w)))"
  using assms
proof (induction w arbitrary: p rule: length_induct)
  case (1 w)
  let ?raw = "p @ w @ NL # rest"
  have unf: "value_end ?raw (int (length p) - 1) =
      (case getitem ?raw (find ?raw [NL] (int (length p)) + 1) of
         Inl err \<Rightarrow> Some (Inl err)
       | Inr b \<Rightarrow> if b \<noteq> SP then Some (Inr (find ?raw [NL] (int (length p))))
                  else value_end ?raw (find ?raw [NL] (int (length p))))"
    by (subst value_end.simps) (simp add: Let_def)
  show ?case
  proof (cases "NL \<in> set w")
    case False
    have f: "find ?raw [NL] (int (length p)) = int (length p + length w)"
      using find_char [OF False, of p rest] by simp
    have g: "getitem ?raw (int (length p + length w) + 1) =
               (case rest of [] \<Rightarrow> Inl IndexError | c # cs \<Rightarrow> Inr c)"
    proof (cases rest)
      case Nil
      then show ?thesis using getitem_end [of "p @ w @ [NL]"] by (simp add: add.commute)
    next
      case (Cons c cs)
      then show ?thesis using getitem_at [of "p @ w @ [NL]" c cs] by (simp add: add.commute)
    qed
    show ?thesis
      unfolding unf f g by (simp split: list.splits)
  next
    case True
    then obtain ys zs where w: "w = ys @ NL # zs" and ys: "NL \<notin> set ys"
      by (meson split_list_first)
    from folded_split [of ys zs] 1(2) w ys obtain zs' where zs: "zs = SP # zs'" and fz: "folded zs"
      by auto
    have raw: "?raw = p @ ys @ NL # SP # zs' @ NL # rest" by (simp add: w zs)
    have f: "find ?raw [NL] (int (length p)) = int (length p + length ys)"
      unfolding raw using find_char [OF ys, of p "SP # zs' @ NL # rest"] by simp
    have g: "getitem ?raw (int (length p + length ys) + 1) = Inr SP"
      unfolding raw using getitem_at [of "p @ ys @ [NL]" SP "zs' @ NL # rest"]
      by (simp add: add.commute)
    have step: "value_end ?raw (int (length p) - 1) = value_end ?raw (int (length p + length ys))"
      unfolding unf f g by simp
    have len: "length zs < length w" by (simp add: w)
    have ih: "value_end ((p @ ys @ [NL]) @ zs @ NL # rest) (int (length (p @ ys @ [NL])) - 1) =
           (case rest of
              [] \<Rightarrow> Some (Inl IndexError)
            | c # cs \<Rightarrow>
                if c \<noteq> SP then Some (Inr (int (length (p @ ys @ [NL]) + length zs)))
                else value_end ((p @ ys @ [NL]) @ zs @ NL # rest)
                       (int (length (p @ ys @ [NL]) + length zs)))"
      using 1(1) len fz by blast
    have e1: "(p @ ys @ [NL]) @ zs @ NL # rest = ?raw" by (simp add: w)
    have e2: "int (length (p @ ys @ [NL])) - 1 = int (length p + length ys)" by simp
    have e3: "length (p @ ys @ [NL]) + length zs = length p + length w" by (simp add: w)
    show ?thesis using step ih unfolding e1 e2 e3 by simp
  qed
qed

lemma expand_Nil: "replace [] [NL] [NL, SP] = []"
  by (subst replace.simps) simp

lemma expand_Cons:
  "replace (c # cs) [NL] [NL, SP] =
     (if c = NL then NL # SP # replace cs [NL] [NL, SP] else c # replace cs [NL] [NL, SP])"
  by (subst replace.simps) simp

lemma collapse_Nil: "replace [] [NL, SP] [NL] = []"
  by (subst replace.simps) simp

lemma collapse_fold: "replace (NL # SP # cs) [NL, SP] [NL] = NL # replace cs [NL, SP] [NL]"
  by (subst replace.simps) simp

lemma collapse_other: "c \<noteq> NL \<Longrightarrow> replace (c # cs) [NL, SP] [NL] = c # replace cs [NL, SP] [NL]"
  by (subst replace.simps) simp

lemma collapse_expand: "replace (replace v [NL] [NL, SP]) [NL, SP] [NL] = v"
  by (induction v) (simp_all add: expand_Nil expand_Cons collapse_Nil collapse_fold collapse_other)

lemma folded_expand: "folded (replace v [NL] [NL, SP])"
  by (induction v) (simp_all add: expand_Nil expand_Cons)



lemma find_first:
  assumes "c \<notin> set xs" and "c \<in> set r"
  shows "find (pre @ xs @ r) [c] (int (length pre))
           = int (length pre + length xs + length (takeWhile (\<lambda>x. x \<noteq> c) r))"
proof -
  let ?t = "takeWhile (\<lambda>x. x \<noteq> c) r"
  let ?d = "dropWhile (\<lambda>x. x \<noteq> c) r"
  have d: "?d \<noteq> []" using assms(2) by simp
  have "hd ?d = c" using hd_dropWhile [OF d] by simp
  then have r: "r = ?t @ c # tl ?d"
    using d by (metis takeWhile_dropWhile_id list.collapse)
  have n: "c \<notin> set (xs @ ?t)"
    using assms(1) by (auto dest: set_takeWhileD)
  have "find (pre @ (xs @ ?t) @ c # tl ?d) [c] (int (length pre))
          = int (length pre + length (xs @ ?t))"
    using n by (rule find_char)
  then show ?thesis using r by (metis append.assoc length_append add.assoc)
qed

lemma kvlm_parse_field_unfold:
  assumes k: "valid_key k" and e: "folded e"
  shows "kvlm_parse (pre @ k @ SP # e @ NL # rest) (int (length pre)) dopt =
           (case value_end (pre @ k @ SP # e @ NL # rest) (int (length pre)) of
              None \<Rightarrow> None
            | Some (Inl err) \<Rightarrow> Some (Inl err)
            | Some (Inr ep) \<Rightarrow>
                kvlm_parse (pre @ k @ SP # e @ NL # rest) (ep + 1)
                  (Some (add_field (case dopt of None \<Rightarrow> [] | Some d0 \<Rightarrow> d0) k
                     (replace (slice (pre @ k @ SP # e @ NL # rest)
                                 (int (length pre + length k) + 1) ep) [NL, SP] [NL]))))"
proof -
  let ?raw = "pre @ k @ SP # e @ NL # rest"
  have sp: "find ?raw [SP] (int (length pre)) = int (length pre + length k)"
    using k find_char [of SP k pre "e @ NL # rest"] by (simp add: valid_key_def)
  have nl: "find ?raw [NL] (int (length pre))
              = int (length pre + length (k @ [SP]) + length (takeWhile (\<lambda>x. x \<noteq> NL) (e @ NL # rest)))"
    using k find_first [of NL "k @ [SP]" "e @ NL # rest" pre] by (simp add: valid_key_def)
  have key: "slice ?raw (int (length pre)) (int (length pre) + int (length k)) = k"
    using slice_middle [of pre k "SP # e @ NL # rest"] by simp
  show ?thesis
    by (subst kvlm_parse.simps)
       (simp add: sp nl key Let_def add_field_def del: takeWhile_append1 takeWhile_append2
          cong: option.case_cong sum.case_cong)
qed



lemma value_end_field:
  assumes k: "valid_key k" and e: "folded e"
  shows "value_end (pre @ k @ SP # e @ NL # rest) (int (length pre)) =
           (case rest of
              [] \<Rightarrow> Some (Inl IndexError)
            | c # cs \<Rightarrow>
                if c \<noteq> SP then Some (Inr (int (length pre + length k + length e) + 1))
                else value_end (pre @ k @ SP # e @ NL # rest)
                       (int (length pre + length k + length e) + 1))"
proof -
  obtain a k' where kk: "k = a # k'" using k by (cases k) (auto simp: valid_key_def)
  have fw: "folded (k' @ SP # e)"
    using k e kk by (intro folded_append) (auto simp: valid_key_def)
  have "value_end ((pre @ [a]) @ (k' @ SP # e) @ NL # rest) (int (length (pre @ [a])) - 1) =
           (case rest of
              [] \<Rightarrow> Some (Inl IndexError)
            | c # cs \<Rightarrow>
                if c \<noteq> SP then Some (Inr (int (length (pre @ [a]) + length (k' @ SP # e))))
                else value_end ((pre @ [a]) @ (k' @ SP # e) @ NL # rest)
                       (int (length (pre @ [a]) + length (k' @ SP # e))))"
    using fw by (rule value_end_scan)
  moreover have "(pre @ [a]) @ (k' @ SP # e) @ NL # rest = pre @ k @ SP # e @ NL # rest"
    by (simp add: kk)
  moreover have "int (length (pre @ [a])) - 1 = int (length pre)" by simp
  moreover have "int (length (pre @ [a]) + length (k' @ SP # e))
                   = int (length pre + length k + length e) + 1"
    by (simp add: kk)
  ultimately show ?thesis by (simp only:)
qed

lemma kvlm_parse_field_end:
  assumes "valid_key k" and "folded e"
  shows "kvlm_parse (pre @ k @ SP # e @ [NL]) (int (length pre)) dopt = Some (Inl IndexError)"
  using kvlm_parse_field_unfold [OF assms, of pre "[]" dopt] value_end_field [OF assms, of pre "[]"]
  by simp

lemma kvlm_parse_field:
  assumes k: "valid_key k" and c: "c \<noteq> SP"
  shows "kvlm_parse (pre @ field_line k v @ c # cs) (int (length pre)) dopt =
           kvlm_parse (pre @ field_line k v @ c # cs) (int (length (pre @ field_line k v)))
             (Some (add_field (case dopt of None \<Rightarrow> [] | Some d0 \<Rightarrow> d0) k v))"
proof -
  let ?e = "replace v [NL] [NL, SP]"
  let ?raw = "pre @ k @ SP # ?e @ NL # c # cs"
  have e: "folded ?e" by (rule folded_expand)
  have ve: "value_end ?raw (int (length pre)) = Some (Inr (int (length pre + length k + length ?e) + 1))"
    using value_end_field [OF k e, of pre "c # cs"] c by simp
  have sl: "slice ?raw (int (length pre + length k) + 1) (int (length pre + length k + length ?e) + 1) = ?e"
    using slice_middle [of "pre @ k @ [SP]" ?e "NL # c # cs"] by (simp add: add.commute add.left_commute)
  have "kvlm_parse ?raw (int (length pre)) dopt =
          kvlm_parse ?raw (int (length pre + length k + length ?e) + 1 + 1)
            (Some (add_field (case dopt of None \<Rightarrow> [] | Some d0 \<Rightarrow> d0) k v))"
    unfolding kvlm_parse_field_unfold [OF k e, of pre "c # cs" dopt] ve
    by (simp only: option.case sum.case sl collapse_expand)
  then show ?thesis by (simp add: field_line_def add.commute add.left_commute)
qed

lemma field_line_head: "valid_key k \<Longrightarrow> \<exists>c cs. field_line k v = c # cs \<and> c \<noteq> SP"
  by (cases k) (auto simp: valid_key_def field_line_def)

lemma kvlm_parse_fields:
  assumes "\<forall>(k, v) \<in> set fs. valid_key k" and "c \<noteq> SP"
  shows "kvlm_parse (pre @ field_lines fs @ c # cs) (int (length pre)) (Some d) =
           kvlm_parse (pre @ field_lines fs @ c # cs) (int (length (pre @ field_lines fs)))
             (Some (add_fields d fs))"
  using assms
proof (induction fs arbitrary: pre d)
  case Nil
  show ?case by (simp add: field_lines_def add_fields_def)
next
  case (Cons f fs)
  obtain k v where f: "f = (k, v)" by (cases f)
  have k: "valid_key k" using Cons.prems(1) f by auto
  have rest: "\<forall>(k, v) \<in> set fs. valid_key k" using Cons.prems(1) by auto
  obtain c' cs' where r: "field_lines fs @ c # cs = c' # cs'" and c': "c' \<noteq> SP"
  proof (cases fs)
    case Nil
    then show ?thesis using that [of c cs] Cons.prems(2) by (simp add: field_lines_def)
  next
    case (Cons g gs)
    obtain k2 v2 where g: "g = (k2, v2)" by (cases g)
    have "valid_key k2" using rest Cons g by auto
    then obtain a as where "field_line k2 v2 = a # as" "a \<noteq> SP"
      using field_line_head by blast
    then show ?thesis using that [of a "as @ field_lines gs @ c # cs"] Cons g
      by (simp add: field_lines_def)
  qed
  have fl: "field_lines ((k, v) # fs) = field_line k v @ field_lines fs"
    by (simp add: field_lines_def)
  have step1: "kvlm_parse (pre @ field_line k v @ field_lines fs @ c # cs) (int (length pre))
                 (Some d) =
          kvlm_parse (pre @ field_line k v @ field_lines fs @ c # cs)
            (int (length (pre @ field_line k v))) (Some (add_field d k v))"
    using kvlm_parse_field [OF k c', of pre v cs' "Some d"] by (simp add: r)
  have step2: "kvlm_parse ((pre @ field_line k v) @ field_lines fs @ c # cs)
                     (int (length (pre @ field_line k v))) (Some (add_field d k v))
               = kvlm_parse ((pre @ field_line k v) @ field_lines fs @ c # cs)
                     (int (length ((pre @ field_line k v) @ field_lines fs)))
                     (Some (add_fields (add_field d k v) fs))"
    using rest Cons.prems(2) by (rule Cons.IH)
  have af: "add_fields d ((k, v) # fs) = add_fields (add_field d k v) fs"
    by (simp add: add_fields_def)
  show ?case unfolding f fl af using step1 step2 by simp
qed

lemma kvlm_parse_fields_end:
  assumes "\<forall>(k, v) \<in> set fs. valid_key k" and "fs \<noteq> []"
  shows "kvlm_parse (pre @ field_lines fs) (int (length pre)) (Some d) = Some (Inl IndexError)"
proof -
  obtain gs k v where fs: "fs = gs @ [(k, v)]"
    using assms(2) by (cases fs rule: rev_cases) auto
  have k: "valid_key k" using assms(1) fs by auto
  have gs: "\<forall>(k, v) \<in> set gs. valid_key k" using assms(1) fs by auto
  obtain a as where a: "field_line k v = a # as" "a \<noteq> SP"
    using field_line_head [OF k] by blast
  have fl: "field_lines fs = field_lines gs @ field_line k v"
    by (simp add: field_lines_def fs)
  have "kvlm_parse (pre @ field_lines gs @ a # as) (int (length pre)) (Some d) =
          kvlm_parse (pre @ field_lines gs @ a # as) (int (length (pre @ field_lines gs)))
            (Some (add_fields d gs))"
    using gs a(2) by (rule kvlm_parse_fields)
  also have "\<dots> = kvlm_parse ((pre @ field_lines gs) @ k @ SP # replace v [NL] [NL, SP] @ [NL])
                     (int (length (pre @ field_lines gs))) (Some (add_fields d gs))"
    using a(1) by (simp add: field_line_def)
  also have "\<dots> = Some (Inl IndexError)"
    using k folded_expand by (rule kvlm_parse_field_end)
  finally show ?thesis by (simp add: fl a)
qed

lemma find_aux_bound: "find_aux sub xs i = - 1 \<or> int i \<le> find_aux sub xs i"
  by (induction xs arbitrary: i) (auto, force)

lemma kvlm_parse_message:
  "kvlm_parse (pre @ NL # msg) (int (length pre)) (Some d) =
     Some (Inr (dict_set d None (Single msg)))"
proof -
  let ?raw = "pre @ NL # msg"
  have nl: "find ?raw [NL] (int (length pre)) = int (length pre)"
    using find_char [of NL "[]" pre msg] by simp
  have "find ?raw [SP] (int (length pre)) = find_aux [SP] msg (Suc (length pre))"
    by (simp add: find_def)
  then have sp: "find ?raw [SP] (int (length pre)) < 0
                  \<or> int (length pre) < find ?raw [SP] (int (length pre))"
    using find_aux_bound [of "[SP]" msg "Suc (length pre)"] by auto
  have sf: "slice_from ?raw (int (length pre) + 1) = msg"
    using slice_from_suffix [of "pre @ [NL]" msg] by (simp add: add.commute)
  show ?thesis
    using sp by (subst kvlm_parse.simps) (auto simp: nl sf Let_def)
qed

lemma kvlm_parse_None: "kvlm_parse raw s None = kvlm_parse raw s (Some [])"
  using kvlm_parse.simps [of raw s None] kvlm_parse.simps [of raw s "Some []"] by simp



text \<open>
  C10. The scan reads the byte after the newline it has found: when that newline is the
  last byte, the read is out of range. So on an input made of one or more field lines
  and nothing else, where the newline that ends the last field line is the final byte,
  \<open>kvlm_parse\<close> returns and its result is IndexError, not an assertion failure.
\<close>

theorem kvlm_parse_no_separator:
  "(find raw [NL] (e + 1) = int (length raw) - 1 \<longrightarrow> value_end raw e = Some (Inl IndexError))
   \<and> ((\<forall>(k, v) \<in> set fs. valid_key k) \<and> fs \<noteq> []
        \<longrightarrow> kvlm_parse (field_lines fs) 0 None = Some (Inl IndexError))"
proof (intro conjI impI)
  assume "find raw [NL] (e + 1) = int (length raw) - 1"
  then show "value_end raw e = Some (Inl IndexError)"
    using getitem_end [of raw] by (subst value_end.simps) (simp add: Let_def)
next
  assume "(\<forall>(k, v) \<in> set fs. valid_key k) \<and> fs \<noteq> []"
  then have "kvlm_parse ([] @ field_lines fs) (int (length ([] :: bytes))) (Some [])
               = Some (Inl IndexError)"
    by (intro kvlm_parse_fields_end) auto
  then show "kvlm_parse (field_lines fs) 0 None = Some (Inl IndexError)"
    by (simp add: kvlm_parse_None)
qed

text \<open>The hypotheses of C10 hold for a field line alone and for two field lines.\<close>

theorem kvlm_parse_no_separator_witness:
  "value_end (''tree abc'' @ [NL]) 0 = Some (Inl IndexError)
   \<and> kvlm_parse (''tree abc'' @ [NL] @ ''parent x'' @ [NL, SP] @ ''y'' @ [NL]) 0 None
       = Some (Inl IndexError)"
proof -
  have f: "find (''tree abc'' @ [NL]) [NL] (0 + 1) = int (length (''tree abc'' @ [NL])) - 1"
    by (simp add: find_def)
  have l: "field_lines [(''tree'', ''abc''), (''parent'', ''x'' @ [NL] @ ''y'')]
             = ''tree abc'' @ [NL] @ ''parent x'' @ [NL, SP] @ ''y'' @ [NL]"
    by (simp add: field_lines_def field_line_def expand_Cons expand_Nil)
  have v: "\<forall>(k, v) \<in> set [(''tree'', ''abc''), (''parent'', ''x'' @ [NL] @ ''y'')]. valid_key k"
    by (simp add: valid_key_def)
  show ?thesis
    using kvlm_parse_no_separator
            [of "''tree abc'' @ [NL]" 0 "[(''tree'', ''abc''), (''parent'', ''x'' @ [NL] @ ''y'')]"]
          f l v
    by simp
qed

lemma field_lines_append: "field_lines (a @ b) = field_lines a @ field_lines b"
  by (simp add: field_lines_def)

lemma serialize_values:
  "foldl (\<lambda>ret v. ret @ field_line k v) ret vs = ret @ field_lines (map (Pair k) vs)"
  by (induction vs arbitrary: ret) (simp_all add: field_lines_def)

lemma serialize_items:
  "foldl (\<lambda>ret (k, val).
       case k of
         None \<Rightarrow> ret
       | Some k' \<Rightarrow>
           foldl (\<lambda>ret v. ret @ field_line k' v) ret
             (case val of Multi l \<Rightarrow> l | Single v \<Rightarrow> [v])) ret D
     = ret @ field_lines (flatten D)"
proof (induction D arbitrary: ret)
  case Nil
  show ?case by (simp add: flatten_def field_lines_def)
next
  case (Cons it D)
  obtain k val where it: "it = (k, val)" by (cases it)
  have fl: "flatten (it # D) = item_fields it @ flatten D" by (simp add: flatten_def)
  show ?case
    unfolding fl field_lines_append
    by (cases k) (simp_all add: it Cons.IH item_fields_def serialize_values field_lines_def)
qed

lemma kvlm_serialize_eq:
  "kvlm_serialize D =
     (case dict_get D None of
        None \<Rightarrow> Inl KeyError
      | Some (Multi l) \<Rightarrow> Inl TypeError
      | Some (Single m) \<Rightarrow> Inr (field_lines (flatten D) @ [NL] @ m @ [NL]))"
  unfolding kvlm_serialize_def serialize_items by (simp add: Let_def)

lemma dict_set_absent: "dict_get D key = None \<Longrightarrow> dict_set D key x = D @ [(key, x)]"
  by (induction D) (auto simp: dict_get_def split: if_splits)

lemma dict_get_dict_set: "dict_get (dict_set D key x) key = Some x"
  by (induction D) (auto simp: dict_get_def)

lemma dict_get_snoc:
  "dict_get D key = None \<Longrightarrow> dict_get (D @ [(key, x)]) key = Some x"
  by (induction D) (auto simp: dict_get_def split: if_splits)

lemma dict_get_snoc_other:
  "key' \<noteq> key \<Longrightarrow> dict_get (D @ [(key, x)]) key' = dict_get D key'"
  by (induction D) (auto simp: dict_get_def)

lemma dict_set_snoc:
  "dict_get D key = None \<Longrightarrow> dict_set (D @ [(key, x)]) key y = D @ [(key, y)]"
  by (induction D) (auto simp: dict_get_def split: if_splits)

lemma flatten_dict_set_None: "flatten (dict_set D None x) = flatten D"
  by (induction D) (auto simp: flatten_def item_fields_def)

lemma flatten_snoc: "flatten (D @ [it]) = flatten D @ item_fields it"
  by (simp add: flatten_def)

lemma dict_set_present_length:
  assumes "dict_get D (Some k) = Some old"
  shows "length (field_lines (flatten (dict_set D (Some k) new)))
           + length (field_lines (item_fields (Some k, old)))
         = length (field_lines (flatten D)) + length (field_lines (item_fields (Some k, new)))"
  using assms
proof (induction D)
  case Nil
  then show ?case by (simp add: dict_get_def)
next
  case (Cons it D)
  obtain k' val where it: "it = (k', val)" by (cases it)
  show ?case
  proof (cases "k' = Some k")
    case True
    then have "val = old" using Cons.prems it by (simp add: dict_get_def)
    then show ?thesis using True it by (simp add: flatten_def field_lines_append)
  next
    case False
    then have "dict_get D (Some k) = Some old" using Cons.prems it by (simp add: dict_get_def)
    then show ?thesis using Cons.IH False it by (simp add: flatten_def field_lines_append)
  qed
qed

lemma add_field_length:
  "length (field_lines (flatten (add_field D k v)))
     = length (field_lines (flatten D)) + length (field_line k v)"
proof (cases "dict_get D (Some k)")
  case None
  then show ?thesis
    by (simp add: add_field_def dict_set_absent flatten_snoc field_lines_append item_fields_def
        field_lines_def)
next
  case (Some old)
  show ?thesis
  proof (cases old)
    case (Single v0)
    then show ?thesis
      using Some dict_set_present_length [OF Some, of "Multi [v0, v]"]
      by (simp add: add_field_def item_fields_def field_lines_def)
  next
    case (Multi l)
    then show ?thesis
      using Some dict_set_present_length [OF Some, of "Multi (l @ [v])"]
      by (simp add: add_field_def item_fields_def field_lines_def)
  qed
qed

lemma add_fields_length:
  "length (field_lines (flatten (add_fields D fs)))
     = length (field_lines (flatten D)) + length (field_lines fs)"
proof (induction fs arbitrary: D)
  case Nil
  show ?case by (simp add: add_fields_def field_lines_def)
next
  case (Cons f fs)
  obtain k v where f: "f = (k, v)" by (cases f)
  have "add_fields D (f # fs) = add_fields (add_field D k v) fs"
    by (simp add: add_fields_def f)
  then show ?case
    using Cons.IH [of "add_field D k v"] add_field_length [of D k v]
    by (simp add: field_lines_def f)
qed

lemma kvlm_parse_document:
  assumes "\<forall>(k, v) \<in> set fs. valid_key k"
  shows "kvlm_parse (field_lines fs @ NL # msg) 0 None
           = Some (Inr (dict_set (add_fields [] fs) None (Single msg)))"
proof -
  have "kvlm_parse ([] @ field_lines fs @ NL # msg) (int (length ([] :: bytes))) (Some [])
          = kvlm_parse ([] @ field_lines fs @ NL # msg) (int (length ([] @ field_lines fs)))
              (Some (add_fields [] fs))"
    using assms by (intro kvlm_parse_fields) auto
  then show ?thesis
    using kvlm_parse_message [of "field_lines fs" msg "add_fields [] fs"]
    by (simp add: kvlm_parse_None)
qed



text \<open>
  Whatever the order of the field lines, parsing a well-formed text and serializing the
  result gives one byte more than the text: the serializer ends with a newline.
\<close>

lemma kvlm_serialize_parse_grows:
  assumes "\<forall>(k, v) \<in> set fs. valid_key k"
  shows "\<exists>D y. kvlm_parse (field_lines fs @ NL # msg) 0 None = Some (Inr D)
           \<and> kvlm_serialize D = Inr y
           \<and> length y = Suc (length (field_lines fs @ NL # msg))
           \<and> y \<noteq> field_lines fs @ NL # msg"
proof -
  let ?D = "dict_set (add_fields [] fs) None (Single msg)"
  let ?y = "field_lines (flatten ?D) @ [NL] @ msg @ [NL]"
  have p: "kvlm_parse (field_lines fs @ NL # msg) 0 None = Some (Inr ?D)"
    using assms by (rule kvlm_parse_document)
  have s: "kvlm_serialize ?D = Inr ?y"
    by (simp add: kvlm_serialize_eq dict_get_dict_set)
  have e: "field_lines (flatten []) = []" by (simp add: flatten_def field_lines_def)
  have "length (field_lines (flatten ?D)) = length (field_lines fs)"
    unfolding flatten_dict_set_None add_fields_length e by simp
  then have l: "length ?y = Suc (length (field_lines fs @ NL # msg))" by simp
  then have "?y \<noteq> field_lines fs @ NL # msg" by (metis n_not_Suc_n)
  with p s l show ?thesis by blast
qed

lemma add_fields_append: "add_fields d (a @ b) = add_fields (add_fields d a) b"
  by (simp add: add_fields_def)

lemma add_fields_multi:
  "dict_get d0 (Some k) = None \<Longrightarrow>
     add_fields (d0 @ [(Some k, Multi m)]) (map (Pair k) l) = d0 @ [(Some k, Multi (m @ l))]"
proof (induction l arbitrary: m)
  case Nil
  show ?case by (simp add: add_fields_def)
next
  case (Cons v l)
  have "add_field (d0 @ [(Some k, Multi m)]) k v = d0 @ [(Some k, Multi (m @ [v]))]"
    using Cons.prems by (simp add: add_field_def dict_get_snoc dict_set_snoc)
  then show ?case using Cons.IH [OF Cons.prems, of "m @ [v]"] by (simp add: add_fields_def)
qed

lemma add_fields_item:
  assumes "dict_get d0 (Some k) = None" and "valid_item (Some k, val)"
  shows "add_fields d0 (item_fields (Some k, val)) = d0 @ [(Some k, val)]"
proof (cases val)
  case (Single v)
  then show ?thesis
    using assms(1) by (simp add: item_fields_def add_fields_def add_field_def dict_set_absent)
next
  case (Multi l)
  then obtain v1 v2 l' where l: "l = v1 # v2 # l'"
    using assms(2) by (cases l; cases "tl l") (auto simp: valid_item_def)
  have a1: "add_field d0 k v1 = d0 @ [(Some k, Single v1)]"
    using assms(1) by (simp add: add_field_def dict_set_absent)
  have a2: "add_field (d0 @ [(Some k, Single v1)]) k v2 = d0 @ [(Some k, Multi [v1, v2])]"
    using assms(1) by (simp add: add_field_def dict_get_snoc dict_set_snoc)
  have "add_fields d0 (map (Pair k) l)
          = add_fields (d0 @ [(Some k, Multi [v1, v2])]) (map (Pair k) l')"
    by (simp add: l add_fields_def a1 a2)
  also have "\<dots> = d0 @ [(Some k, Multi ([v1, v2] @ l'))]"
    using assms(1) by (rule add_fields_multi)
  finally show ?thesis by (simp add: Multi l item_fields_def)
qed

lemma add_fields_flatten:
  assumes "\<forall>it \<in> set F. valid_item it" and "distinct (map fst (d0 @ F))"
  shows "add_fields d0 (flatten F) = d0 @ F"
  using assms
proof (induction F arbitrary: d0)
  case Nil
  show ?case by (simp add: flatten_def add_fields_def)
next
  case (Cons it F)
  obtain k val where it: "it = (Some k, val)"
    using Cons.prems(1) by (cases it; cases "fst it") (auto simp: valid_item_def)
  have "Some k \<notin> fst ` set d0" using Cons.prems(2) it by auto
  then have g: "dict_get d0 (Some k) = None"
    by (simp add: dict_get_def map_of_eq_None_iff)
  have vi: "valid_item (Some k, val)" using Cons.prems(1) it by simp
  have "add_fields d0 (flatten (it # F)) = add_fields (add_fields d0 (item_fields it)) (flatten F)"
    by (simp add: flatten_def add_fields_append)
  also have "\<dots> = add_fields (d0 @ [it]) (flatten F)"
    using add_fields_item [OF g vi] it by simp
  also have "\<dots> = (d0 @ [it]) @ F"
    using Cons.prems by (intro Cons.IH) auto
  finally show ?case by simp
qed

lemma flatten_valid:
  "\<forall>it \<in> set F. valid_item it \<Longrightarrow> \<forall>(k, v) \<in> set (flatten F). valid_key k"
  by (auto simp: flatten_def item_fields_def valid_item_def split: option.splits)

lemma valid_items_no_message: "\<forall>it \<in> set F. valid_item it \<Longrightarrow> dict_get F None = None"
  by (auto simp: dict_get_def map_of_eq_None_iff valid_item_def split: option.splits)

text \<open>
  C3. Take a document whose field keys are valid and distinct, whose lists hold at least
  two values and whose message comes last. Serializing it succeeds, and parsing the text
  succeeds with the fields as they were, in order; but the message has a newline appended,
  so the result is not the document.
\<close>

theorem kvlm_parse_serialize_message:
  assumes "\<forall>it \<in> set F. valid_item it" and "distinct (map fst F)"
  shows "\<exists>x. kvlm_serialize (F @ [(None, Single msg)]) = Inr x
           \<and> kvlm_parse x 0 None = Some (Inr (F @ [(None, Single (msg @ [NL]))]))
           \<and> kvlm_parse x 0 None \<noteq> Some (Inr (F @ [(None, Single msg)]))"
proof -
  let ?x = "field_lines (flatten F) @ NL # msg @ [NL]"
  have nm: "dict_get F None = None" using assms(1) by (rule valid_items_no_message)
  have s: "kvlm_serialize (F @ [(None, Single msg)]) = Inr ?x"
    using nm by (simp add: kvlm_serialize_eq dict_get_snoc flatten_snoc item_fields_def)
  have af: "add_fields [] (flatten F) = F"
    using add_fields_flatten [OF assms(1), of "[]"] assms(2) by simp
  have "kvlm_parse ?x 0 None
          = Some (Inr (dict_set (add_fields [] (flatten F)) None (Single (msg @ [NL]))))"
    using flatten_valid [OF assms(1)] by (rule kvlm_parse_document)
  then have p: "kvlm_parse ?x 0 None = Some (Inr (F @ [(None, Single (msg @ [NL]))]))"
    using nm by (simp add: af dict_set_absent)
  then have "kvlm_parse ?x 0 None \<noteq> Some (Inr (F @ [(None, Single msg)]))" by simp
  with s p show ?thesis by blast
qed

text \<open>The hypotheses of C3 hold for a document with a single and a double field.\<close>

theorem kvlm_parse_serialize_message_witness:
  "kvlm_serialize [(Some ''tree'', Single ''abc''), (Some ''parent'', Multi [''p1'', ''p2'']),
                   (None, Single ''msg'')]
     = Inr (''tree abc'' @ [NL] @ ''parent p1'' @ [NL] @ ''parent p2'' @ [NL, NL] @ ''msg'' @ [NL])
   \<and> kvlm_parse (''tree abc'' @ [NL] @ ''parent p1'' @ [NL] @ ''parent p2'' @ [NL, NL]
                   @ ''msg'' @ [NL]) 0 None
     = Some (Inr [(Some ''tree'', Single ''abc''), (Some ''parent'', Multi [''p1'', ''p2'']),
                  (None, Single (''msg'' @ [NL]))])"
proof -
  have v: "\<forall>it \<in> set [(Some ''tree'', Single ''abc''), (Some ''parent'', Multi [''p1'', ''p2''])].
             valid_item it"
    by (simp add: valid_item_def valid_key_def)
  have d: "distinct (map fst [(Some ''tree'', Single ''abc''),
                              (Some ''parent'', Multi [''p1'', ''p2''])])"
    by simp
  have s: "kvlm_serialize [(Some ''tree'', Single ''abc''), (Some ''parent'', Multi [''p1'', ''p2'']),
                   (None, Single ''msg'')]
     = Inr (''tree abc'' @ [NL] @ ''parent p1'' @ [NL] @ ''parent p2'' @ [NL, NL] @ ''msg'' @ [NL])"
    by code_simp
  show ?thesis
    using kvlm_parse_serialize_message [OF v d, of "''msg''"] s by auto
qed



text \<open>
  C4 fails as stated: lines of one key that are not adjacent come back grouped, here the
  two \<open>parent\<close> lines around a \<open>tree\<close> line.
\<close>

theorem kvlm_serialize_parse_counterexample:
  "kvlm_parse (''parent a'' @ [NL] @ ''tree b'' @ [NL] @ ''parent c'' @ [NL, NL] @ ''m'') 0 None
     = Some (Inr [(Some ''parent'', Multi [''a'', ''c'']), (Some ''tree'', Single ''b''),
                  (None, Single ''m'')])
   \<and> kvlm_serialize [(Some ''parent'', Multi [''a'', ''c'']), (Some ''tree'', Single ''b''),
                      (None, Single ''m'')]
     = Inr (''parent a'' @ [NL] @ ''parent c'' @ [NL] @ ''tree b'' @ [NL, NL] @ ''m'' @ [NL])
   \<and> ''parent a'' @ [NL] @ ''parent c'' @ [NL] @ ''tree b'' @ [NL, NL] @ ''m'' @ [NL]
     \<noteq> ''parent a'' @ [NL] @ ''tree b'' @ [NL] @ ''parent c'' @ [NL, NL] @ ''m''"
  by code_simp

text \<open>
  C4, amended. For a well-formed text in which the lines of a repeated key are adjacent
  (the field lines of a grouped list of fields, a blank line, the message), parsing
  succeeds, serializing the result succeeds, and the output begins with the text, byte
  for byte.
\<close>

theorem kvlm_serialize_parse_prefix:
  assumes "\<forall>it \<in> set F. valid_item it" and "distinct (map fst F)"
  shows "\<exists>D y. kvlm_parse (field_lines (flatten F) @ NL # msg) 0 None = Some (Inr D)
           \<and> kvlm_serialize D = Inr y
           \<and> take (length (field_lines (flatten F) @ NL # msg)) y
               = field_lines (flatten F) @ NL # msg"
proof -
  let ?x = "field_lines (flatten F) @ NL # msg"
  have nm: "dict_get F None = None" using assms(1) by (rule valid_items_no_message)
  have af: "add_fields [] (flatten F) = F"
    using add_fields_flatten [OF assms(1), of "[]"] assms(2) by simp
  have "kvlm_parse ?x 0 None
          = Some (Inr (dict_set (add_fields [] (flatten F)) None (Single msg)))"
    using flatten_valid [OF assms(1)] by (rule kvlm_parse_document)
  then have p: "kvlm_parse ?x 0 None = Some (Inr (F @ [(None, Single msg)]))"
    using nm by (simp add: af dict_set_absent)
  have s: "kvlm_serialize (F @ [(None, Single msg)]) = Inr (?x @ [NL])"
    using nm by (simp add: kvlm_serialize_eq dict_get_snoc flatten_snoc item_fields_def)
  have "take (length ?x) (?x @ [NL]) = ?x" by simp
  with p s show ?thesis by blast
qed

text \<open>The hypotheses of the amended C4 hold for a text with three field lines.\<close>

theorem kvlm_serialize_parse_prefix_witness:
  "\<exists>D y. kvlm_parse (''tree abc'' @ [NL] @ ''parent p1'' @ [NL] @ ''parent p2'' @ [NL, NL]
                        @ ''msg'') 0 None = Some (Inr D)
         \<and> kvlm_serialize D = Inr y
         \<and> take (length (''tree abc'' @ [NL] @ ''parent p1'' @ [NL] @ ''parent p2'' @ [NL, NL]
                            @ ''msg'')) y
             = ''tree abc'' @ [NL] @ ''parent p1'' @ [NL] @ ''parent p2'' @ [NL, NL] @ ''msg''"
proof -
  have v: "\<forall>it \<in> set [(Some ''tree'', Single ''abc''), (Some ''parent'', Multi [''p1'', ''p2''])].
             valid_item it"
    by (simp add: valid_item_def valid_key_def)
  have d: "distinct (map fst [(Some ''tree'', Single ''abc''),
                              (Some ''parent'', Multi [''p1'', ''p2''])])"
    by simp
  have l: "field_lines (flatten [(Some ''tree'', Single ''abc''),
                                 (Some ''parent'', Multi [''p1'', ''p2''])]) @ NL # ''msg''
             = ''tree abc'' @ [NL] @ ''parent p1'' @ [NL] @ ''parent p2'' @ [NL, NL] @ ''msg''"
    by (simp add: flatten_def item_fields_def field_lines_def field_line_def expand_Cons
        expand_Nil)
  show ?thesis
    using kvlm_serialize_parse_prefix [OF v d, of "''msg''"] unfolding l by simp
qed

end
